theory Spec2Isabelle
  imports Main
begin

section \<open>Tokens and the token heap\<close>

text \<open>
  Modelled from the spec: the token kinds of \<^verbatim>\<open>token.h\<close>, which is not among the
  sources. They are the seventeen kinds of the spec's token model, under the names that
  the sources switch on (\<^verbatim>\<open>TT_KEY\<close>, \<^verbatim>\<open>TT_VALUE\<close>, \<^verbatim>\<open>TT_BLOCK_END\<close>, ...): one for each
  token class that \<^verbatim>\<open>Scanner::ScanNextToken\<close>, \<^verbatim>\<open>PushIndentTo\<close> and \<^verbatim>\<open>PopIndentTo\<close>
  allocate.
\<close>

datatype TOKEN_TYPE =
    TT_STREAM_START | TT_STREAM_END | TT_DOC_START | TT_DOC_END
  | TT_BLOCK_SEQ_START | TT_BLOCK_MAP_START | TT_BLOCK_END | TT_BLOCK_ENTRY
  | TT_KEY | TT_VALUE
  | TT_FLOW_SEQ_START | TT_FLOW_SEQ_END | TT_FLOW_MAP_START | TT_FLOW_MAP_END | TT_FLOW_ENTRY
  | TT_PLAIN_SCALAR | TT_QUOTED_SCALAR

text \<open>
  Modelled from the spec: the token class of \<^verbatim>\<open>token.h\<close>, which is not among the sources.
  A token has its kind (\<open>ttype\<close>, the member \<^verbatim>\<open>type\<close> of the sources), the two flags that
  \<^verbatim>\<open>Scanner::GetNextToken\<close> reads, and the text of a scalar (\<open>tvalue\<close>). A token that is
  not possible is retracted, one that is possible but not valid is tentative, one that is
  both is confirmed.
\<close>

record Token =
  ttype :: TOKEN_TYPE
  isPossible :: bool
  isValid :: bool
  tvalue :: string

type_synonym ptr = nat

text \<open>
  The exception of the sources (\<^verbatim>\<open>UnknownToken\<close>) and the undefined behaviours that the
  sources can run into, each as a value: dereferencing a null pointer, dereferencing a
  pointer to a deleted token, and reading the top of an empty \<^verbatim>\<open>std::stack\<close>.
\<close>

datatype error = UnknownToken | NullDereference | InvalidPointer | EmptyStack

section \<open>The scanner state\<close>

text \<open>
  The members that \<^verbatim>\<open>scanner.cpp\<close> uses, and the heap of token objects:
  \<^item> \<open>INPUT\<close> is the unread rest of the stream, \<open>INPUT_fail\<close> its fail bit
    (set by a \<^verbatim>\<open>get()\<close> at the end of the input);
  \<^item> \<open>m_tokens\<close> is the queue of token pointers, front first;
  \<^item> \<open>m_limboTokens\<close> is the set of the tokens that are being scanned;
  \<^item> \<open>m_indents\<close> is the stack of indentations, top first; the sources use it through
    \<^verbatim>\<open>top\<close>, \<^verbatim>\<open>push\<close>, \<^verbatim>\<open>pop\<close> and \<^verbatim>\<open>empty\<close>;
  \<^item> \<open>heap\<close> maps the address of every live token object to its contents, and \<open>brk\<close>
    is the next address that \<^verbatim>\<open>new\<close> hands out.
  The \<^verbatim>\<open>int\<close> members are mathematical integers: a line of $2^{31}$ characters or
  a nesting of $2^{31}$ flow collections is out of the model.
\<close>

record Scanner =
  INPUT :: string
  INPUT_fail :: bool
  m_startedStream :: bool
  m_endedStream :: bool
  m_simpleKeyAllowed :: bool
  m_flowLevel :: int
  m_line :: int
  m_column :: int
  m_tokens :: "ptr list"
  m_limboTokens :: "ptr set"
  m_indents :: "int list"
  heap :: "ptr \<rightharpoonup> Token"
  brk :: ptr

text \<open>A call either returns a value or throws; both leave a scanner state behind.\<close>

datatype 'a result =
    is_Return: Return (value_of: 'a) (state_of: Scanner)
  | Throw (error_of: error) (state_of: Scanner)

text \<open>
  \<^verbatim>\<open>Scanner::Scanner\<close>. The initialiser list sets the flags, the flow level and the
  position; the queue, the limbo set and the indentation stack are not in it and start
  empty.
\<close>

definition Scanner_ctor :: "string \<Rightarrow> Scanner" where
  "Scanner_ctor inp =
     \<lparr>INPUT = inp, INPUT_fail = False,
      m_startedStream = False, m_endedStream = False, m_simpleKeyAllowed = False,
      m_flowLevel = 0, m_line = 0, m_column = 0,
      m_tokens = [], m_limboTokens = {}, m_indents = [],
      heap = Map.empty, brk = 0\<rparr>"

text \<open>
  Modelled from the spec: \<^verbatim>\<open>new T\<close> for the token class of kind \<open>ty\<close>, whose constructor
  is in \<^verbatim>\<open>token.h\<close>, not among the sources. A token of the spec is tentative or retracted
  only through a simple key: a new token is possible and valid, and has no text.
\<close>

definition new_Token :: "TOKEN_TYPE \<Rightarrow> Scanner \<Rightarrow> ptr \<times> Scanner" where
  "new_Token ty s =
     (brk s,
      s\<lparr>heap := (heap s)(brk s \<mapsto> \<lparr>ttype = ty, isPossible = True, isValid = True, tvalue = []\<rparr>),
        brk := Suc (brk s)\<rparr>)"

text \<open>\<^verbatim>\<open>delete p\<close>.\<close>

definition delete_Token :: "ptr \<Rightarrow> Scanner \<Rightarrow> Scanner" where
  "delete_Token p s = s\<lparr>heap := (heap s)(p := None)\<rparr>"

text \<open>
  \<^verbatim>\<open>Scanner::~Scanner\<close>: deletes every queued token, then every limbo token.
\<close>

definition Scanner_dtor :: "Scanner \<Rightarrow> Scanner" where
  "Scanner_dtor s =
     (let s1 = (fold delete_Token (m_tokens s) s)\<lparr>m_tokens := []\<rparr>
      in s1\<lparr>heap := (\<lambda>p. if p \<in> m_limboTokens s1 then None else heap s1 p)\<rparr>)"

section \<open>Reading characters\<close>

text \<open>\<^verbatim>\<open>INPUT.peek()\<close>: the next character, or \<open>None\<close> for \<^verbatim>\<open>EOF\<close>.\<close>

definition peek :: "Scanner \<Rightarrow> char option" where
  "peek s = (case INPUT s of [] \<Rightarrow> None | c # _ \<Rightarrow> Some c)"

text \<open>
  \<^verbatim>\<open>Scanner::GetChar\<close>: the column is advanced first; a line feed resets it and
  advances the line. At the end of the input \<^verbatim>\<open>get()\<close> fails and delivers \<^verbatim>\<open>EOF\<close>,
  which is the character \<open>0xFF\<close> once converted to \<^verbatim>\<open>char\<close>.
\<close>

definition GetChar :: "Scanner \<Rightarrow> char \<times> Scanner" where
  "GetChar s =
     (let s1 = s\<lparr>m_column := m_column s + 1\<rparr>
      in case INPUT s1 of
           [] \<Rightarrow> (CHR 0xFF, s1\<lparr>INPUT_fail := True\<rparr>)
         | ch # rest \<Rightarrow>
             (let s2 = s1\<lparr>INPUT := rest\<rparr>
              in if ch = CHR 0x0A
                 then (ch, s2\<lparr>m_column := 0, m_line := m_line s2 + 1\<rparr>)
                 else (ch, s2)))"

text \<open>\<^verbatim>\<open>Scanner::Eat(n)\<close>.\<close>

fun Eat :: "nat \<Rightarrow> Scanner \<Rightarrow> Scanner" where
  "Eat 0 s = s"
| "Eat (Suc n) s = Eat n (snd (GetChar s))"

text \<open>\<^verbatim>\<open>Scanner::EatLineBreak\<close>.\<close>

definition EatLineBreak :: "Scanner \<Rightarrow> Scanner" where
  "EatLineBreak s = (Eat 1 s)\<lparr>m_column := 0\<rparr>"

text \<open>\<^verbatim>\<open>Scanner::IsWhitespaceToBeEaten\<close>, with the comparison \<^verbatim>\<open>m_flowLevel >= 0\<close> of the source.\<close>

definition IsWhitespaceToBeEaten :: "Scanner \<Rightarrow> char \<Rightarrow> bool" where
  "IsWhitespaceToBeEaten s ch =
     (if ch = CHR '' '' then True
      else if ch = CHR 0x09 \<and> (m_flowLevel s \<ge> 0 \<or> \<not> m_simpleKeyAllowed s) then True
      else False)"

section \<open>The indentation stack\<close>

text \<open>
  \<^verbatim>\<open>Scanner::PushIndentTo\<close>. It returns the null pointer (\<open>None\<close>) in flow context and
  when the column is no indentation; otherwise it pushes the column, enqueues a new
  block start token and returns \<^verbatim>\<open>m_tokens.front()\<close>. Reading \<^verbatim>\<open>m_indents.top()\<close> of an
  empty stack is undefined.
\<close>

definition PushIndentTo :: "Scanner \<Rightarrow> int \<Rightarrow> bool \<Rightarrow> ptr option result" where
  "PushIndentTo s column sequence =
     (if m_flowLevel s > 0 then Return None s
      else case m_indents s of
             [] \<Rightarrow> Throw EmptyStack s
           | indent # _ \<Rightarrow>
               if column \<le> indent then Return None s
               else
                 (let s1 = s\<lparr>m_indents := column # m_indents s\<rparr>;
                      (p, s2) = new_Token (if sequence then TT_BLOCK_SEQ_START
                                           else TT_BLOCK_MAP_START) s1;
                      s3 = s2\<lparr>m_tokens := m_tokens s2 @ [p]\<rparr>
                  in Return (Some (hd (m_tokens s3))) s3))"

text \<open>
  \<^verbatim>\<open>Scanner::PopIndentTo\<close>: in block context, pops every level above \<open>column\<close> and
  enqueues one block end token for each.
\<close>

function PopIndentTo_loop :: "Scanner \<Rightarrow> int \<Rightarrow> Scanner" where
  "PopIndentTo_loop s column =
     (if m_indents s \<noteq> [] \<and> hd (m_indents s) > column
      then (let s1 = s\<lparr>m_indents := tl (m_indents s)\<rparr>;
                (p, s2) = new_Token TT_BLOCK_END s1
            in PopIndentTo_loop (s2\<lparr>m_tokens := m_tokens s2 @ [p]\<rparr>) column)
      else s)"
  by pat_completeness auto
termination
  by (relation "measure (\<lambda>(s, column). length (m_indents s))")
     (auto simp: new_Token_def)

declare PopIndentTo_loop.simps [simp del]

definition PopIndentTo :: "Scanner \<Rightarrow> int \<Rightarrow> Scanner" where
  "PopIndentTo s column = (if m_flowLevel s > 0 then s else PopIndentTo_loop s column)"

text \<open>\<^verbatim>\<open>Scanner::IncreaseFlowLevel\<close> and \<^verbatim>\<open>Scanner::DecreaseFlowLevel\<close>.\<close>

definition IncreaseFlowLevel :: "Scanner \<Rightarrow> Scanner" where
  "IncreaseFlowLevel s = s\<lparr>m_flowLevel := m_flowLevel s + 1\<rparr>"

definition DecreaseFlowLevel :: "Scanner \<Rightarrow> Scanner" where
  "DecreaseFlowLevel s = (if m_flowLevel s > 0 then s\<lparr>m_flowLevel := m_flowLevel s - 1\<rparr> else s)"

section \<open>What the scanner uses and the sources do not hold\<close>

text \<open>
  \<^verbatim>\<open>scanner.cpp\<close> calls code that is not among the sources: the patterns of \<^verbatim>\<open>exp.h\<close>
  (\<^verbatim>\<open>Exp::X.Matches(INPUT)\<close>, a test on the unread input that consumes nothing), the
  specializations of \<^verbatim>\<open>Scanner::ScanToken\<close>, one for each token class, and
  \<^verbatim>\<open>Scanner::ValidateSimpleKey\<close>. The scanner is modelled for any choice of them:
  they are the fields of a record that every function below takes as its first argument.
  \<open>ScanToken X ty p s\<close> is the call \<^verbatim>\<open>ScanToken(pToken)\<close> for the token class of kind
  \<open>ty\<close> at address \<open>p\<close>; it returns a token pointer or throws.
\<close>

record Extern =
  Exp_DocStart :: "string \<Rightarrow> bool"
  Exp_DocEnd :: "string \<Rightarrow> bool"
  Exp_BlockEntry :: "string \<Rightarrow> bool"
  Exp_Key :: "string \<Rightarrow> bool"
  Exp_KeyInFlow :: "string \<Rightarrow> bool"
  Exp_Value :: "string \<Rightarrow> bool"
  Exp_ValueInFlow :: "string \<Rightarrow> bool"
  Exp_PlainScalar :: "string \<Rightarrow> bool"
  Exp_PlainScalarInFlow :: "string \<Rightarrow> bool"
  Exp_Comment :: "string \<Rightarrow> bool"
  Exp_Break :: "string \<Rightarrow> bool"
  ScanToken :: "TOKEN_TYPE \<Rightarrow> ptr \<Rightarrow> Scanner \<Rightarrow> ptr result"
  ValidateSimpleKey :: "Scanner \<Rightarrow> Scanner"

text \<open>
  Modelled from the spec: the indicator characters of \<^verbatim>\<open>Keys\<close> in \<^verbatim>\<open>exp.h\<close>, which is
  not among the sources. The spec gives the flow delimiters as \<^verbatim>\<open>[ ] { } ,\<close>; the
  literal and folded block scalar markers are \<^verbatim>\<open>|\<close> and \<^verbatim>\<open>>\<close>.
\<close>

definition Keys_FlowSeqStart :: char where "Keys_FlowSeqStart = CHR ''[''"
definition Keys_FlowSeqEnd :: char where "Keys_FlowSeqEnd = CHR '']''"
definition Keys_FlowMapStart :: char where "Keys_FlowMapStart = CHR ''{''"
definition Keys_FlowMapEnd :: char where "Keys_FlowMapEnd = CHR ''}''"
definition Keys_FlowEntry :: char where "Keys_FlowEntry = CHR '',''"
definition Keys_LiteralScalar :: char where "Keys_LiteralScalar = CHR ''|''"
definition Keys_FoldedScalar :: char where "Keys_FoldedScalar = CHR ''>''"

section \<open>Classifying the input\<close>

definition IsDocumentStart :: "Extern \<Rightarrow> Scanner \<Rightarrow> bool" where
  "IsDocumentStart X s = (if m_column s \<noteq> 0 then False else Exp_DocStart X (INPUT s))"

definition IsDocumentEnd :: "Extern \<Rightarrow> Scanner \<Rightarrow> bool" where
  "IsDocumentEnd X s = (if m_column s \<noteq> 0 then False else Exp_DocEnd X (INPUT s))"

definition IsBlockEntry :: "Extern \<Rightarrow> Scanner \<Rightarrow> bool" where
  "IsBlockEntry X s = Exp_BlockEntry X (INPUT s)"

definition IsKey :: "Extern \<Rightarrow> Scanner \<Rightarrow> bool" where
  "IsKey X s = (if m_flowLevel s > 0 then Exp_KeyInFlow X (INPUT s) else Exp_Key X (INPUT s))"

definition IsValue :: "Extern \<Rightarrow> Scanner \<Rightarrow> bool" where
  "IsValue X s = (if m_flowLevel s > 0 then Exp_ValueInFlow X (INPUT s) else Exp_Value X (INPUT s))"

definition IsPlainScalar :: "Extern \<Rightarrow> Scanner \<Rightarrow> bool" where
  "IsPlainScalar X s =
     (if m_flowLevel s > 0 then Exp_PlainScalarInFlow X (INPUT s) else Exp_PlainScalar X (INPUT s))"

section \<open>Scanning\<close>

text \<open>
  \<^verbatim>\<open>ScanAndEnqueue(new T)\<close>: the token is allocated, entered in the limbo set, scanned,
  pushed on the queue and taken out of the limbo set. When \<^verbatim>\<open>ScanToken\<close> throws, the
  token stays in the limbo set.
\<close>

definition ScanAndEnqueue :: "Extern \<Rightarrow> TOKEN_TYPE \<Rightarrow> Scanner \<Rightarrow> unit result" where
  "ScanAndEnqueue X ty s =
     (let (pToken, s1) = new_Token ty s;
          s2 = s1\<lparr>m_limboTokens := insert pToken (m_limboTokens s1)\<rparr>
      in case ScanToken X ty pToken s2 of
           Throw e s3 \<Rightarrow> Throw e s3
         | Return r s3 \<Rightarrow>
             (let s4 = s3\<lparr>m_tokens := m_tokens s3 @ [r]\<rparr>
              in Return () (s4\<lparr>m_limboTokens := m_limboTokens s4 - {pToken}\<rparr>)))"

text \<open>\<^verbatim>\<open>INPUT.peek()\<close> converted to \<^verbatim>\<open>char\<close>, as the argument of \<^verbatim>\<open>IsWhitespaceToBeEaten\<close>.\<close>

definition peek_char :: "Scanner \<Rightarrow> char" where
  "peek_char s = (case peek s of None \<Rightarrow> CHR 0xFF | Some c \<Rightarrow> c)"

text \<open>The loop \<^verbatim>\<open>while(IsWhitespaceToBeEaten(INPUT.peek())) Eat(1);\<close>\<close>

function EatWhitespace :: "Scanner \<Rightarrow> Scanner" where
  "EatWhitespace s =
     (if IsWhitespaceToBeEaten s (peek_char s) then EatWhitespace (Eat 1 s) else s)"
  by pat_completeness auto
termination
  by (relation "measure (\<lambda>s. length (INPUT s))")
     (auto simp: IsWhitespaceToBeEaten_def peek_char_def peek_def GetChar_def Let_def
           split: list.splits if_splits)

declare EatWhitespace.simps [simp del]

text \<open>The loop \<^verbatim>\<open>while(INPUT && !Exp::Break.Matches(INPUT)) Eat(1);\<close>\<close>

function EatComment :: "Extern \<Rightarrow> Scanner \<Rightarrow> Scanner" where
  "EatComment X s =
     (if \<not> INPUT_fail s \<and> \<not> Exp_Break X (INPUT s) then EatComment X (Eat 1 s) else s)"
  by pat_completeness auto
termination
  by (relation "measure (\<lambda>(X, s). length (INPUT s) + (if INPUT_fail s then 0 else 1))")
     (auto simp: GetChar_def Let_def split: list.splits if_splits)

declare EatComment.simps [simp del]

text \<open>
  \<^verbatim>\<open>Scanner::ScanToNextToken\<close>. The loop ends when the input is at no line break; no
  result (\<open>None\<close>) stands for a loop that never ends.
\<close>

partial_function (option) ScanToNextToken :: "Extern \<Rightarrow> Scanner \<Rightarrow> Scanner option" where
  "ScanToNextToken X s =
     (let s1 = EatWhitespace s;
          s2 = (if Exp_Comment X (INPUT s1) then EatComment X s1 else s1)
      in if \<not> Exp_Break X (INPUT s2) then Some s2
         else
           (let s3 = EatLineBreak s2;
                s4 = ValidateSimpleKey X s3;
                s5 = (if m_flowLevel s4 = 0 then s4\<lparr>m_simpleKeyAllowed := True\<rparr> else s4)
            in ScanToNextToken X s5))"

text \<open>\<^verbatim>\<open>Scanner::ScanNextToken\<close>.\<close>

definition ScanNextToken :: "Extern \<Rightarrow> Scanner \<Rightarrow> unit result option" where
  "ScanNextToken X s =
     (if m_endedStream s then Some (Return () s)
      else if \<not> m_startedStream s then Some (ScanAndEnqueue X TT_STREAM_START s)
      else
        (case ScanToNextToken X s of
           None \<Rightarrow> None
         | Some s1 \<Rightarrow>
            (let s2 = ValidateSimpleKey X s1;
                 s3 = PopIndentTo s2 (m_column s2)
             in Some
              (if peek s3 = None then ScanAndEnqueue X TT_STREAM_END s3
               else if IsDocumentStart X s3 then ScanAndEnqueue X TT_DOC_START s3
               else if IsDocumentEnd X s3 then ScanAndEnqueue X TT_DOC_END s3
               else if peek s3 = Some Keys_FlowSeqStart then ScanAndEnqueue X TT_FLOW_SEQ_START s3
               else if peek s3 = Some Keys_FlowSeqEnd then ScanAndEnqueue X TT_FLOW_SEQ_END s3
               else if peek s3 = Some Keys_FlowMapStart then ScanAndEnqueue X TT_FLOW_MAP_START s3
               else if peek s3 = Some Keys_FlowMapEnd then ScanAndEnqueue X TT_FLOW_MAP_END s3
               else if peek s3 = Some Keys_FlowEntry then ScanAndEnqueue X TT_FLOW_ENTRY s3
               else if IsBlockEntry X s3 then ScanAndEnqueue X TT_BLOCK_ENTRY s3
               else if IsKey X s3 then ScanAndEnqueue X TT_KEY s3
               else if IsValue X s3 then ScanAndEnqueue X TT_VALUE s3
               else if peek s3 = Some Keys_LiteralScalar \<and> m_flowLevel s3 = 0 then Return () s3
               else if peek s3 = Some Keys_FoldedScalar \<and> m_flowLevel s3 = 0 then Return () s3
               else if peek s3 = Some (CHR 0x27) \<or> peek s3 = Some (CHR 0x22)
               then ScanAndEnqueue X TT_QUOTED_SCALAR s3
               else if IsPlainScalar X s3 then ScanAndEnqueue X TT_PLAIN_SCALAR s3
               else Throw UnknownToken s3))))"

text \<open>
  \<^verbatim>\<open>Scanner::GetNextToken\<close>. \<open>pToken\<close> is the local variable of the source, \<open>None\<close>
  the null pointer. Reading the flags of a queued token that is not live is undefined.
\<close>

partial_function (option) GetNextToken :: "Extern \<Rightarrow> Scanner \<Rightarrow> ptr option result option" where
  "GetNextToken X s =
     (let pToken = (if m_tokens s \<noteq> [] then Some (hd (m_tokens s)) else None)
      in if pToken \<noteq> None \<and> heap s (the pToken) = None then Some (Throw InvalidPointer s)
         else if pToken \<noteq> None \<and> \<not> isPossible (the (heap s (the pToken)))
         then GetNextToken X (delete_Token (the pToken) (s\<lparr>m_tokens := tl (m_tokens s)\<rparr>))
         else
           (let pToken = (if pToken \<noteq> None \<and> \<not> isValid (the (heap s (the pToken)))
                          then None else pToken)
            in if pToken \<noteq> None
               then Some (Return pToken (s\<lparr>m_tokens := tl (m_tokens s)\<rparr>))
               else if m_endedStream s then Some (Return None s)
               else
                 (case ScanNextToken X s of
                    None \<Rightarrow> None
                  | Some (Throw e s') \<Rightarrow> Some (Throw e s')
                  | Some (Return u s') \<Rightarrow> GetNextToken X s')))"

text \<open>
  \<^verbatim>\<open>Scanner::Scan\<close>, the test driver of the source: it takes tokens until
  \<^verbatim>\<open>GetNextToken\<close> returns the null pointer, prints each and deletes it. The printed
  tokens are collected in \<open>out\<close>.
\<close>

partial_function (option) Scan :: "Extern \<Rightarrow> Scanner \<Rightarrow> Token list \<Rightarrow> Token list result option" where
  "Scan X s out =
     (case GetNextToken X s of
        None \<Rightarrow> None
      | Some (Throw e s') \<Rightarrow> Some (Throw e s')
      | Some (Return None s') \<Rightarrow> Some (Return out s')
      | Some (Return (Some pToken) s') \<Rightarrow>
          (case heap s' pToken of
             None \<Rightarrow> Some (Throw InvalidPointer s')
           | Some tok \<Rightarrow> Scan X (delete_Token pToken s') (out @ [tok])))"

section \<open>An instance of the code that the sources do not hold\<close>

text \<open>
  The scanner and the parser are run on an instance of the code that the sources do not
  hold. The spec names the patterns of \<^verbatim>\<open>exp.h\<close> (\<^verbatim>\<open>---\<close> and \<^verbatim>\<open>...\<close> for the document
  markers, a block entry marker, a key and a value indicator, a comment marker, line
  breaks, a plain scalar grammar for block and for flow context) and leaves their
  characters to the format; the comment of \<^verbatim>\<open>IsWhitespaceToBeEaten\<close> gives \<^verbatim>\<open>-\<close>, \<^verbatim>\<open>?\<close>
  and \<^verbatim>\<open>:\<close> for the block entry, the key and the value.

  Modelled from the spec: the white space of \<^verbatim>\<open>exp.h\<close>, which is not among the sources:
  the space and the tab that \<^verbatim>\<open>IsWhitespaceToBeEaten\<close> tests.
\<close>

definition Blank :: "char \<Rightarrow> bool" where
  "Blank c = (c = CHR '' '' \<or> c = CHR 0x09)"

text \<open>
  Modelled from the spec: white space or a line break of \<^verbatim>\<open>exp.h\<close>, which is not among
  the sources; the line break is the line feed by which \<^verbatim>\<open>GetChar\<close> counts lines.
\<close>

definition BlankOrBreak :: "char \<Rightarrow> bool" where
  "BlankOrBreak c = (Blank c \<or> c = CHR 0x0A)"

text \<open>The unread input starts with the characters \<open>pre\<close>.\<close>

definition starts_with :: "string \<Rightarrow> string \<Rightarrow> bool" where
  "starts_with pre inp = (take (length pre) inp = pre)"

text \<open>
  Modelled from the spec: the pattern of an indicator (block entry, key, value) in
  \<^verbatim>\<open>exp.h\<close>, which is not among the sources: the character of the indicator with white
  space or a line break after it.
\<close>

definition indicator :: "char \<Rightarrow> string \<Rightarrow> bool" where
  "indicator c inp =
     (case inp of
        [] \<Rightarrow> False
      | x # rest \<Rightarrow> x = c \<and> (case rest of [] \<Rightarrow> False | y # _ \<Rightarrow> BlankOrBreak y))"

text \<open>
  Modelled from the spec: the plain scalar grammar of \<^verbatim>\<open>exp.h\<close>, which is not among the
  sources, at the first character of a scalar: no white space, no line break, none of the
  characters that start another token or are reserved (anchors, aliases, tags, literal and
  folded scalars, quotes, comments, directives), and no indicator.
\<close>

definition plain_start :: "string \<Rightarrow> bool" where
  "plain_start inp =
     (case inp of
        [] \<Rightarrow> False
      | x # _ \<Rightarrow>
          \<not> BlankOrBreak x \<and> x \<notin> set '',[]{}#&*!|>%@`'' \<and> x \<noteq> CHR 0x27 \<and> x \<noteq> CHR 0x22
          \<and> \<not> indicator (CHR ''-'') inp \<and> \<not> indicator (CHR ''?'') inp
          \<and> \<not> indicator (CHR '':'') inp)"

text \<open>
  Modelled from the spec: the text of a plain scalar, which the token scanner of
  \<^verbatim>\<open>scantoken.cpp\<close>, not among the sources, reads: the characters up to white space, a
  line break, a value indicator or, in flow context, a flow delimiter.
\<close>

fun plain_text :: "bool \<Rightarrow> string \<Rightarrow> string" where
  "plain_text flow [] = []"
| "plain_text flow (c # cs) =
     (if BlankOrBreak c \<or> (flow \<and> c \<in> set '',[]{}'')
         \<or> (c = CHR '':'' \<and> (cs = [] \<or> BlankOrBreak (hd cs)))
      then [] else c # plain_text flow cs)"

text \<open>The text \<open>txt\<close> is stored in the token at \<open>p\<close>.\<close>

definition set_value :: "ptr \<Rightarrow> string \<Rightarrow> Scanner \<Rightarrow> Scanner" where
  "set_value p txt s =
     (case heap s p of
        None \<Rightarrow> s
      | Some tok \<Rightarrow> s\<lparr>heap := (heap s)(p \<mapsto> tok\<lparr>tvalue := txt\<rparr>)\<rparr>)"

text \<open>
  Modelled from the spec: the specializations of \<^verbatim>\<open>Scanner::ScanToken\<close>, which are not
  among the sources. Each consumes the characters of its token and returns the pointer
  it was given. From the spec:
  \<^item> the stream start marks the stream started; the indentation stack of the spec has a
    sentinel at its bottom, which the constructor does not push, so it is pushed here,
    as \<open>-1\<close>, below every column;
  \<^item> the stream end marks the stream ended; the spec's balance of block starts and block
    ends needs the levels that are still open to be closed here, since the
    \<^verbatim>\<open>PopIndentTo(m_column)\<close> of \<^verbatim>\<open>ScanNextToken\<close> leaves every level at or below the
    column: the stack is popped to the sentinel with \<^verbatim>\<open>PopIndentTo\<close>;
  \<^item> a flow start or end adjusts the flow level;
  \<^item> a block entry pushes a block sequence indentation and a key a block mapping
    indentation, both with \<^verbatim>\<open>PushIndentTo\<close> at the current column;
  \<^item> a scalar token carries its text.
  A simple key is allowed where the spec allows it: at the start of a line and after a
  block indicator or a flow delimiter that opens an entry. How a simple key is proposed
  and retracted is an open question of the spec: no token of this instance is ever
  tentative or retracted.
\<close>

definition yaml_ScanToken :: "TOKEN_TYPE \<Rightarrow> ptr \<Rightarrow> Scanner \<Rightarrow> ptr result" where
  "yaml_ScanToken ty p s =
     (case ty of
        TT_STREAM_START \<Rightarrow>
          Return p (s\<lparr>m_startedStream := True, m_simpleKeyAllowed := True,
                      m_indents := (-1) # m_indents s\<rparr>)
      | TT_STREAM_END \<Rightarrow>
          Return p ((PopIndentTo s (-1))\<lparr>m_simpleKeyAllowed := False, m_endedStream := True\<rparr>)
      | TT_DOC_START \<Rightarrow> Return p (Eat 3 (s\<lparr>m_simpleKeyAllowed := False\<rparr>))
      | TT_DOC_END \<Rightarrow> Return p (Eat 3 (s\<lparr>m_simpleKeyAllowed := False\<rparr>))
      | TT_FLOW_SEQ_START \<Rightarrow> Return p (Eat 1 ((IncreaseFlowLevel s)\<lparr>m_simpleKeyAllowed := True\<rparr>))
      | TT_FLOW_MAP_START \<Rightarrow> Return p (Eat 1 ((IncreaseFlowLevel s)\<lparr>m_simpleKeyAllowed := True\<rparr>))
      | TT_FLOW_SEQ_END \<Rightarrow> Return p (Eat 1 ((DecreaseFlowLevel s)\<lparr>m_simpleKeyAllowed := False\<rparr>))
      | TT_FLOW_MAP_END \<Rightarrow> Return p (Eat 1 ((DecreaseFlowLevel s)\<lparr>m_simpleKeyAllowed := False\<rparr>))
      | TT_FLOW_ENTRY \<Rightarrow> Return p (Eat 1 (s\<lparr>m_simpleKeyAllowed := True\<rparr>))
      | TT_BLOCK_ENTRY \<Rightarrow>
          (case PushIndentTo s (m_column s) True of
             Throw e s1 \<Rightarrow> Throw e s1
           | Return r s1 \<Rightarrow> Return p (Eat 1 (s1\<lparr>m_simpleKeyAllowed := True\<rparr>)))
      | TT_KEY \<Rightarrow>
          (case PushIndentTo s (m_column s) False of
             Throw e s1 \<Rightarrow> Throw e s1
           | Return r s1 \<Rightarrow> Return p (Eat 1 (s1\<lparr>m_simpleKeyAllowed := (m_flowLevel s1 = 0)\<rparr>)))
      | TT_VALUE \<Rightarrow> Return p (Eat 1 (s\<lparr>m_simpleKeyAllowed := (m_flowLevel s = 0)\<rparr>))
      | TT_QUOTED_SCALAR \<Rightarrow>
          (let txt = takeWhile (\<lambda>c. c \<noteq> hd (INPUT s)) (tl (INPUT s))
           in Return p (Eat (length txt + 2) (set_value p txt (s\<lparr>m_simpleKeyAllowed := False\<rparr>))))
      | TT_PLAIN_SCALAR \<Rightarrow>
          (let txt = plain_text (m_flowLevel s > 0) (INPUT s)
           in Return p (Eat (length txt) (set_value p txt (s\<lparr>m_simpleKeyAllowed := False\<rparr>))))
      | _ \<Rightarrow> Return p s)"

text \<open>
  Modelled from the spec: the patterns of \<^verbatim>\<open>exp.h\<close>, the token scanners and
  \<^verbatim>\<open>Scanner::ValidateSimpleKey\<close>, none of them among the sources, put together. The
  document markers are \<^verbatim>\<open>---\<close> and \<^verbatim>\<open>...\<close>, a comment starts at \<^verbatim>\<open>#\<close>, a line break is a
  line feed; with no simple key ever proposed, \<^verbatim>\<open>ValidateSimpleKey\<close> has nothing to do.
\<close>

definition yaml :: Extern where
  "yaml =
     \<lparr>Exp_DocStart = starts_with ''---'',
      Exp_DocEnd = starts_with ''...'',
      Exp_BlockEntry = indicator (CHR ''-''),
      Exp_Key = indicator (CHR ''?''),
      Exp_KeyInFlow = indicator (CHR ''?''),
      Exp_Value = indicator (CHR '':''),
      Exp_ValueInFlow = indicator (CHR '':''),
      Exp_PlainScalar = plain_start,
      Exp_PlainScalarInFlow = plain_start,
      Exp_Comment = starts_with ''#'',
      Exp_Break = starts_with [CHR 0x0A],
      ScanToken = yaml_ScanToken,
      ValidateSimpleKey = (\<lambda>s. s)\<rparr>"

section \<open>The mapping parser\<close>

text \<open>
  \<^verbatim>\<open>Map::Parse\<close>, \<^verbatim>\<open>Map::ParseBlock\<close> and \<^verbatim>\<open>Map::ParseFlow\<close> call code that is not
  among the sources: \<^verbatim>\<open>Scanner::PeekNextToken\<close>, \<^verbatim>\<open>Scanner::PopNextToken\<close>,
  \<^verbatim>\<open>Scanner::EatNextToken\<close> and \<^verbatim>\<open>Node::Parse\<close>. The parser is modelled for any choice
  of them. A node is known by its contents, of type \<open>'n\<close>: \<open>Node_new\<close> is a node as
  \<^verbatim>\<open>new Node\<close> makes it and \<open>Node_Parse\<close> delivers the contents of the node that
  \<^verbatim>\<open>Node::Parse\<close> fills. No result (\<open>None\<close>) stands for a call that does not return.
\<close>

record 'n Parsing =
  PeekNextToken :: "Scanner \<Rightarrow> ptr option result option"
  PopNextToken :: "Scanner \<Rightarrow> unit result option"
  EatNextToken :: "Scanner \<Rightarrow> unit result option"
  Node_Parse :: "Scanner \<Rightarrow> 'n result option"
  Node_new :: "'n"

text \<open>Sequencing: an exception or a call that does not return ends the sequence.\<close>

definition bind_result ::
  "'a result option \<Rightarrow> ('a \<Rightarrow> Scanner \<Rightarrow> 'b result option) \<Rightarrow> 'b result option" where
  "bind_result m f =
     (case m of
        None \<Rightarrow> None
      | Some (Throw e s) \<Rightarrow> Some (Throw e s)
      | Some (Return v s) \<Rightarrow> f v s)"

text \<open>
  \<open>m_data\<close> is the list of the entries of the mapping, in the order of their insertion;
  every \<^verbatim>\<open>m_data[pKey] = pValue\<close> of the sources has a new node as its key and adds an
  entry.

  The lines that \<^verbatim>\<open>ParseBlock\<close> and \<^verbatim>\<open>ParseFlow\<close> share: two new nodes are inserted, the
  key is parsed, and the value is parsed when the next token is a value token.
\<close>

definition Map_entry :: "'n Parsing \<Rightarrow> ('n \<times> 'n) list \<Rightarrow> Scanner \<Rightarrow> ('n \<times> 'n) list result option" where
  "Map_entry A m_data s =
     (let m_data1 = m_data @ [(Node_new A, Node_new A)]
      in bind_result (Node_Parse A s) (\<lambda>key s1.
         let m_data2 = butlast m_data1 @ [(key, snd (last m_data1))]
         in bind_result (PeekNextToken A s1) (\<lambda>pToken s2.
            if pToken = None then Some (Return m_data2 s2)
            else bind_result (PeekNextToken A s2) (\<lambda>pToken s3.
              case pToken of
                None \<Rightarrow> Some (Throw NullDereference s3)
              | Some p \<Rightarrow>
                 (case heap s3 p of
                    None \<Rightarrow> Some (Throw InvalidPointer s3)
                  | Some tok \<Rightarrow>
                      if ttype tok = TT_VALUE
                      then bind_result (PopNextToken A s3) (\<lambda>u s4.
                           bind_result (Node_Parse A s4) (\<lambda>val s5.
                             Some (Return (butlast m_data2 @ [(key, val)]) s5)))
                      else Some (Return m_data2 s3))))))"

text \<open>
  One turn of the loop of \<^verbatim>\<open>Map::ParseBlock\<close>; the flag tells whether the loop goes on.
  The type of the token is read again after \<^verbatim>\<open>PopNextToken\<close>.
\<close>

definition ParseBlock_body ::
  "'n Parsing \<Rightarrow> ('n \<times> 'n) list \<Rightarrow> Scanner \<Rightarrow> (bool \<times> ('n \<times> 'n) list) result option" where
  "ParseBlock_body A m_data s =
     bind_result (PeekNextToken A s) (\<lambda>pToken s1.
       case pToken of
         None \<Rightarrow> Some (Return (False, m_data) s1)
       | Some p \<Rightarrow>
          (case heap s1 p of
             None \<Rightarrow> Some (Throw InvalidPointer s1)
           | Some tok \<Rightarrow>
               if ttype tok \<noteq> TT_KEY \<and> ttype tok \<noteq> TT_BLOCK_END
               then Some (Return (False, m_data) s1)
               else bind_result (PopNextToken A s1) (\<lambda>u s2.
                 case heap s2 p of
                   None \<Rightarrow> Some (Throw InvalidPointer s2)
                 | Some tok2 \<Rightarrow>
                     if ttype tok2 = TT_BLOCK_END then Some (Return (False, m_data) s2)
                     else bind_result (Map_entry A m_data s2) (\<lambda>m_data' s3.
                            Some (Return (True, m_data') s3)))))"

partial_function (option) ParseBlock ::
  "'n Parsing \<Rightarrow> ('n \<times> 'n) list \<Rightarrow> Scanner \<Rightarrow> ('n \<times> 'n) list result option" where
  "ParseBlock A m_data s =
     (case ParseBlock_body A m_data s of
        None \<Rightarrow> None
      | Some (Throw e s') \<Rightarrow> Some (Throw e s')
      | Some (Return (again, m_data') s') \<Rightarrow>
          if again then ParseBlock A m_data' s' else Some (Return m_data' s'))"

text \<open>
  One turn of the loop of \<^verbatim>\<open>Map::ParseFlow\<close>. Every \<^verbatim>\<open>break\<close> of the source, the two
  marked \<^verbatim>\<open>TODO: throw?\<close> among them, ends the loop with the flag \<open>False\<close>; the token that
  \<^verbatim>\<open>PeekNextToken\<close> returns after an entry is dereferenced with no test.
\<close>

definition ParseFlow_body ::
  "'n Parsing \<Rightarrow> ('n \<times> 'n) list \<Rightarrow> Scanner \<Rightarrow> (bool \<times> ('n \<times> 'n) list) result option" where
  "ParseFlow_body A m_data s =
     bind_result (PeekNextToken A s) (\<lambda>pToken s1.
       case pToken of
         None \<Rightarrow> Some (Return (False, m_data) s1)
       | Some p \<Rightarrow>
          (case heap s1 p of
             None \<Rightarrow> Some (Throw InvalidPointer s1)
           | Some tok \<Rightarrow>
               if ttype tok = TT_FLOW_MAP_END
               then bind_result (EatNextToken A s1) (\<lambda>u s2. Some (Return (False, m_data) s2))
               else if ttype tok \<noteq> TT_KEY then Some (Return (False, m_data) s1)
               else bind_result (PopNextToken A s1) (\<lambda>u s2.
                    bind_result (Map_entry A m_data s2) (\<lambda>m_data' s3.
                    bind_result (PeekNextToken A s3) (\<lambda>pToken s4.
                      case pToken of
                        None \<Rightarrow> Some (Throw NullDereference s4)
                      | Some q \<Rightarrow>
                         (case heap s4 q of
                            None \<Rightarrow> Some (Throw InvalidPointer s4)
                          | Some tok' \<Rightarrow>
                              if ttype tok' = TT_FLOW_ENTRY
                              then bind_result (EatNextToken A s4) (\<lambda>u s5.
                                     Some (Return (True, m_data') s5))
                              else if ttype tok' \<noteq> TT_FLOW_MAP_END
                              then Some (Return (False, m_data') s4)
                              else Some (Return (True, m_data') s4)))))))"

partial_function (option) ParseFlow ::
  "'n Parsing \<Rightarrow> ('n \<times> 'n) list \<Rightarrow> Scanner \<Rightarrow> ('n \<times> 'n) list result option" where
  "ParseFlow A m_data s =
     (case ParseFlow_body A m_data s of
        None \<Rightarrow> None
      | Some (Throw e s') \<Rightarrow> Some (Throw e s')
      | Some (Return (again, m_data') s') \<Rightarrow>
          if again then ParseFlow A m_data' s' else Some (Return m_data' s'))"

text \<open>
  \<^verbatim>\<open>Map::Parse\<close>: the start token is taken with \<^verbatim>\<open>GetNextToken\<close> and dereferenced with
  no test; it is deleted after \<^verbatim>\<open>ParseBlock\<close> or \<^verbatim>\<open>ParseFlow\<close> has returned, and not
  when one of them throws.
\<close>

definition Map_Parse ::
  "'n Parsing \<Rightarrow> Extern \<Rightarrow> ('n \<times> 'n) list \<Rightarrow> Scanner \<Rightarrow> ('n \<times> 'n) list result option" where
  "Map_Parse A X m_data s =
     bind_result (GetNextToken X s) (\<lambda>pToken s1.
       case pToken of
         None \<Rightarrow> Some (Throw NullDereference s1)
       | Some p \<Rightarrow>
          (case heap s1 p of
             None \<Rightarrow> Some (Throw InvalidPointer s1)
           | Some tok \<Rightarrow>
               bind_result
                 (case ttype tok of
                    TT_BLOCK_MAP_START \<Rightarrow> ParseBlock A m_data s1
                  | TT_FLOW_MAP_START \<Rightarrow> ParseFlow A m_data s1
                  | _ \<Rightarrow> Some (Return m_data s1))
                 (\<lambda>m_data' s2. Some (Return m_data' (delete_Token p s2)))))"

section \<open>An instance of the code that the parser uses\<close>

text \<open>
  Modelled from the spec: \<^verbatim>\<open>Scanner::PeekNextToken\<close>, which is not among the sources.
  From the spec: it inspects the front token of the queue, scans more input only when
  the queue is empty, and returns no token at the end of the stream.
\<close>

partial_function (option) Scanner_PeekNextToken ::
  "Extern \<Rightarrow> Scanner \<Rightarrow> ptr option result option" where
  "Scanner_PeekNextToken X s =
     (if m_tokens s \<noteq> [] then Some (Return (Some (hd (m_tokens s))) s)
      else if m_endedStream s then Some (Return None s)
      else
        (case ScanNextToken X s of
           None \<Rightarrow> None
         | Some (Throw e s') \<Rightarrow> Some (Throw e s')
         | Some (Return u s') \<Rightarrow> Scanner_PeekNextToken X s'))"

text \<open>
  Modelled from the spec: \<^verbatim>\<open>Scanner::PopNextToken\<close> and \<^verbatim>\<open>Scanner::EatNextToken\<close>, which
  are not among the sources. From the spec: the front token is removed and discarded.
\<close>

definition Scanner_PopNextToken :: "Extern \<Rightarrow> Scanner \<Rightarrow> unit result option" where
  "Scanner_PopNextToken X s =
     bind_result (Scanner_PeekNextToken X s) (\<lambda>pToken s1.
       case pToken of
         None \<Rightarrow> Some (Return () s1)
       | Some p \<Rightarrow> Some (Return () (delete_Token p (s1\<lparr>m_tokens := tl (m_tokens s1)\<rparr>))))"

text \<open>
  Modelled from the spec: the contents of a node of \<^verbatim>\<open>node.h\<close>, which is not among the
  sources, for the nodes that hold no collection: nothing yet, or the text of a scalar.
\<close>

datatype Content = CT_NONE | CT_SCALAR string

text \<open>
  Modelled from the spec: \<^verbatim>\<open>Node::Parse\<close>, which is not among the sources, for the nodes
  that are scalars. From the spec: it peeks the next token and stores the text of a
  scalar; the mappings and sequences that it hands on are left out, and a node at any
  other token stays as it was made.
\<close>

definition Node_Parse_scalar :: "Extern \<Rightarrow> Scanner \<Rightarrow> Content result option" where
  "Node_Parse_scalar X s =
     bind_result (Scanner_PeekNextToken X s) (\<lambda>pToken s1.
       case pToken of
         None \<Rightarrow> Some (Return CT_NONE s1)
       | Some p \<Rightarrow>
          (case heap s1 p of
             None \<Rightarrow> Some (Throw InvalidPointer s1)
           | Some tok \<Rightarrow>
               if ttype tok = TT_PLAIN_SCALAR \<or> ttype tok = TT_QUOTED_SCALAR
               then bind_result (Scanner_PopNextToken X s1) (\<lambda>u s2.
                      Some (Return (CT_SCALAR (tvalue tok)) s2))
               else Some (Return CT_NONE s1)))"

text \<open>
  Modelled from the spec: what the parser calls, put together. \<^verbatim>\<open>EatNextToken\<close> consumes
  the front token as \<^verbatim>\<open>PopNextToken\<close> does: the spec's \<^verbatim>\<open>ParseFlow\<close> consumes the token
  where the source calls it.
\<close>

definition parsing :: "Extern \<Rightarrow> Content Parsing" where
  "parsing X =
     \<lparr>PeekNextToken = Scanner_PeekNextToken X,
      PopNextToken = Scanner_PopNextToken X,
      EatNextToken = Scanner_PopNextToken X,
      Node_Parse = Node_Parse_scalar X,
      Node_new = CT_NONE\<rparr>"

section \<open>Notions that the properties use\<close>

text \<open>
  Every queued pointer was handed out by an earlier \<^verbatim>\<open>new\<close>, so the next \<^verbatim>\<open>new\<close>
  returns a different address.
\<close>

definition queue_allocated :: "Scanner \<Rightarrow> bool" where
  "queue_allocated s = (\<forall>p \<in> set (m_tokens s). p < brk s)"

text \<open>The numbers of block start tokens and of block end tokens in the queue.\<close>

definition is_block_start :: "Scanner \<Rightarrow> ptr \<Rightarrow> bool" where
  "is_block_start s p =
     (case heap s p of
        None \<Rightarrow> False
      | Some tok \<Rightarrow> ttype tok = TT_BLOCK_SEQ_START \<or> ttype tok = TT_BLOCK_MAP_START)"

definition is_block_end :: "Scanner \<Rightarrow> ptr \<Rightarrow> bool" where
  "is_block_end s p =
     (case heap s p of None \<Rightarrow> False | Some tok \<Rightarrow> ttype tok = TT_BLOCK_END)"

definition block_starts :: "Scanner \<Rightarrow> nat" where
  "block_starts s = length (filter (is_block_start s) (m_tokens s))"

definition block_ends :: "Scanner \<Rightarrow> nat" where
  "block_ends s = length (filter (is_block_end s) (m_tokens s))"

text \<open>The kinds and texts of the tokens that \<^verbatim>\<open>Scanner::Scan\<close> has printed.\<close>

definition printed :: "Token list result option \<Rightarrow> (TOKEN_TYPE \<times> string) list option" where
  "printed r =
     (case r of
        Some (Return toks s) \<Rightarrow> Some (map (\<lambda>tok. (ttype tok, tvalue tok)) toks)
      | _ \<Rightarrow> None)"

text \<open>A token of kind \<open>ty\<close> with the given flags and no text.\<close>

definition token :: "TOKEN_TYPE \<Rightarrow> bool \<Rightarrow> bool \<Rightarrow> Token" where
  "token ty possible valid = \<lparr>ttype = ty, isPossible = possible, isValid = valid, tvalue = []\<rparr>"

text \<open>
  A scanner in block context after the start of the stream, with the given queue of
  tokens at the addresses \<open>0, 1, ...\<close> and nothing left to read. \<open>ended\<close> tells
  whether the end of the stream has been scanned.
\<close>

definition queued :: "Token list \<Rightarrow> bool \<Rightarrow> Scanner" where
  "queued toks ended =
     (Scanner_ctor [])
       \<lparr>m_startedStream := True, m_endedStream := ended,
        m_tokens := [0..<length toks], m_indents := [-1],
        heap := (\<lambda>p. if p < length toks then Some (toks ! p) else None),
        brk := length toks\<rparr>"

text \<open>
  The state of the scanner, with the instance \<open>yaml\<close>, once the stream start token has
  been taken from it and deleted (as \<^verbatim>\<open>Scanner::Scan\<close> does): nothing is read yet.
\<close>

definition begun :: "string \<Rightarrow> Scanner" where
  "begun inp =
     (Scanner_ctor inp)
       \<lparr>m_startedStream := True, m_simpleKeyAllowed := True, m_indents := [-1], brk := 1\<rparr>"

text \<open>
  The three states of a token in the spec, read from the two flags of the sources:
  \<^verbatim>\<open>GetNextToken\<close> tests \<^verbatim>\<open>isPossible\<close> first and \<^verbatim>\<open>isValid\<close> second.
\<close>

datatype status = Tentative | Confirmed | Retracted

definition status_of :: "Token \<Rightarrow> status" where
  "status_of tok =
     (if \<not> isPossible tok then Retracted else if \<not> isValid tok then Tentative else Confirmed)"

text \<open>No token is ready: the queue is empty, or the token at its front is tentative.\<close>

definition no_token_ready :: "Scanner \<Rightarrow> bool" where
  "no_token_ready s =
     (case m_tokens s of
        [] \<Rightarrow> True
      | p # ps \<Rightarrow> (case heap s p of None \<Rightarrow> False | Some tok \<Rightarrow> status_of tok = Tentative))"

text \<open>A confirmed plain scalar token with the text \<open>txt\<close>.\<close>

definition scalar :: "string \<Rightarrow> Token" where
  "scalar txt = \<lparr>ttype = TT_PLAIN_SCALAR, isPossible = True, isValid = True, tvalue = txt\<rparr>"

text \<open>
  A scanner whose stream has ended and whose queue holds the tokens of \<^verbatim>\<open>a: 1 b: 2}\<close>
  with a key token before each key, as a scanner that confirms simple keys delivers them
  for \<^verbatim>\<open>{a: 1 b: 2}\<close> once the stream start and the flow mapping start are taken. The
  queue is written out: the instance \<open>yaml\<close> proposes no simple key and makes no such
  key token.
\<close>

definition missing_separator :: Scanner where
  "missing_separator =
     queued [token TT_KEY True True, scalar ''a'', token TT_VALUE True True, scalar ''1'',
             token TT_KEY True True, scalar ''b'', token TT_VALUE True True, scalar ''2'',
             token TT_FLOW_MAP_END True True, token TT_STREAM_END True True] True"

text \<open>The addresses of the token objects that are live; every address handed out is below \<open>brk\<close>.\<close>

definition outstanding :: "Scanner \<Rightarrow> ptr list" where
  "outstanding s = filter (\<lambda>p. heap s p \<noteq> None) [0..<brk s]"





text \<open>The equations of the loops, for evaluation.\<close>

declare ScanToNextToken.simps [code] GetNextToken.simps [code] Scan.simps [code]
  Scanner_PeekNextToken.simps [code] ParseFlow.simps [code] ParseBlock.simps [code]

section \<open>Reading characters changes nothing but the position\<close>




section \<open>The indentation stack\<close>

lemma PopIndentTo_loop_step:
  assumes "m_indents s = i # rest" and "i > column"
  shows "PopIndentTo_loop s column =
         PopIndentTo_loop
           (s\<lparr>m_indents := rest,
              heap := (heap s)(brk s \<mapsto> token TT_BLOCK_END True True),
              brk := Suc (brk s),
              m_tokens := m_tokens s @ [brk s]\<rparr>) column"
  using assms
  by (subst PopIndentTo_loop.simps) (simp add: new_Token_def token_def)

lemma PopIndentTo_loop_stop:
  assumes "m_indents s = [] \<or> hd (m_indents s) \<le> column"
  shows "PopIndentTo_loop s column = s"
  using assms by (subst PopIndentTo_loop.simps) auto





section \<open>The token that PushIndentTo returns\<close>

text \<open>
  C10. When \<^verbatim>\<open>PushIndentTo\<close> pushes a level (block context, a column above the top of
  the stack), it enqueues a new block start token at the back of the queue and returns
  the front of the queue: the new token when the queue was empty before the call, and
  otherwise the token that was at the front already, which is not the new one.
\<close>

theorem PushIndentTo_returns_front:
  assumes "m_flowLevel s \<le> 0" and "m_indents s = indent # rest" and "indent < column"
      and "queue_allocated s"
  shows "PushIndentTo s column sequence =
           Return (Some (hd (m_tokens s @ [brk s]))) (state_of (PushIndentTo s column sequence))
       \<and> m_indents (state_of (PushIndentTo s column sequence)) = column # m_indents s
       \<and> m_tokens (state_of (PushIndentTo s column sequence)) = m_tokens s @ [brk s]
       \<and> heap (state_of (PushIndentTo s column sequence)) (brk s) =
           Some (token (if sequence then TT_BLOCK_SEQ_START else TT_BLOCK_MAP_START) True True)
       \<and> brk s \<notin> set (m_tokens s)
       \<and> (hd (m_tokens s @ [brk s]) = brk s) = (m_tokens s = [])
       \<and> hd (m_tokens s @ [brk s]) = (if m_tokens s = [] then brk s else hd (m_tokens s))"
proof -
  have fresh: "brk s \<notin> set (m_tokens s)"
    using assms(4) by (auto simp: queue_allocated_def)
  have call: "PushIndentTo s column sequence =
      Return (Some (hd (m_tokens s @ [brk s])))
        (s\<lparr>m_indents := column # m_indents s,
           heap := (heap s)(brk s \<mapsto>
             token (if sequence then TT_BLOCK_SEQ_START else TT_BLOCK_MAP_START) True True),
           brk := Suc (brk s),
           m_tokens := m_tokens s @ [brk s]\<rparr>)"
    using assms(1-3) by (simp add: PushIndentTo_def new_Token_def token_def)
  have front: "(hd (m_tokens s @ [brk s]) = brk s) = (m_tokens s = [])"
  proof (cases "m_tokens s")
    case Nil
    then show ?thesis by simp
  next
    case (Cons p ps)
    with fresh show ?thesis by auto
  qed
  have front': "hd (m_tokens s @ [brk s]) = (if m_tokens s = [] then brk s else hd (m_tokens s))"
    by (cases "m_tokens s") auto
  show ?thesis
    unfolding call using fresh front front' by simp
qed

theorem PushIndentTo_returns_front_witness:
  "m_flowLevel (queued [token TT_STREAM_START True True] False) \<le> 0
   \<and> m_indents (queued [token TT_STREAM_START True True] False) = [-1]
   \<and> (-1 :: int) < 0
   \<and> queue_allocated (queued [token TT_STREAM_START True True] False)
   \<and> value_of (PushIndentTo (queued [token TT_STREAM_START True True] False) 0 True) = Some 0
   \<and> m_tokens (state_of (PushIndentTo (queued [token TT_STREAM_START True True] False) 0 True))
       = [0, 1]
   \<and> map_option ttype
        (heap (state_of (PushIndentTo (queued [token TT_STREAM_START True True] False) 0 True)) 0)
       = Some TT_STREAM_START
   \<and> map_option ttype
        (heap (state_of (PushIndentTo (queued [token TT_STREAM_START True True] False) 0 True)) 1)
       = Some TT_BLOCK_SEQ_START"
proof -
  have q: "queue_allocated (queued [token TT_STREAM_START True True] False)"
    by (simp add: queue_allocated_def queued_def)
  have i: "m_indents (queued [token TT_STREAM_START True True] False) = [-1]"
    by (simp add: queued_def)
  have f: "m_flowLevel (queued [token TT_STREAM_START True True] False) \<le> 0"
    by (simp add: queued_def Scanner_ctor_def)
  have b: "brk (queued [token TT_STREAM_START True True] False) = 1"
    and t: "m_tokens (queued [token TT_STREAM_START True True] False) = [0]"
    by (simp_all add: queued_def)
  from PushIndentTo_returns_front[OF f i _ q, of 0 True] q i f b t
  show ?thesis
    by (simp add: token_def) (simp add: PushIndentTo_def queued_def new_Token_def token_def)
qed

section \<open>Block start and block end tokens\<close>

lemma enqueue_new_counts:
  assumes "queue_allocated s"
      and "m_tokens s' = m_tokens s @ [brk s]"
      and "heap s' = (heap s)(brk s \<mapsto> tok)"
      and "brk s' = Suc (brk s)"
  shows "queue_allocated s'"
    and "block_starts s' = block_starts s +
           (if ttype tok = TT_BLOCK_SEQ_START \<or> ttype tok = TT_BLOCK_MAP_START then 1 else 0)"
    and "block_ends s' = block_ends s + (if ttype tok = TT_BLOCK_END then 1 else 0)"
proof -
  have old: "p \<in> set (m_tokens s) \<Longrightarrow> heap s' p = heap s p" for p
    using assms(1,3) by (auto simp: queue_allocated_def)
  have "filter (is_block_start s') (m_tokens s) = filter (is_block_start s) (m_tokens s)"
    by (rule filter_cong) (simp_all add: is_block_start_def old)
  then show "block_starts s' = block_starts s +
           (if ttype tok = TT_BLOCK_SEQ_START \<or> ttype tok = TT_BLOCK_MAP_START then 1 else 0)"
    using assms(2,3) by (simp add: block_starts_def is_block_start_def)
  have "filter (is_block_end s') (m_tokens s) = filter (is_block_end s) (m_tokens s)"
    by (rule filter_cong) (simp_all add: is_block_end_def old)
  then show "block_ends s' = block_ends s + (if ttype tok = TT_BLOCK_END then 1 else 0)"
    using assms(2,3) by (simp add: block_ends_def is_block_end_def)
  show "queue_allocated s'"
    using assms(1,2,4) by (auto simp: queue_allocated_def less_Suc_eq)
qed

lemma PopIndentTo_loop_counts:
  assumes "queue_allocated s"
  shows "queue_allocated (PopIndentTo_loop s column)
       \<and> block_starts (PopIndentTo_loop s column) = block_starts s
       \<and> block_ends (PopIndentTo_loop s column) + length (m_indents (PopIndentTo_loop s column))
           = block_ends s + length (m_indents s)"
  using assms
proof (induction "m_indents s" arbitrary: s)
  case Nil
  then show ?case by (simp add: PopIndentTo_loop_stop)
next
  case (Cons i rest)
  show ?case
  proof (cases "i > column")
    case True
    define s' where "s' = s\<lparr>m_indents := rest,
              heap := (heap s)(brk s \<mapsto> token TT_BLOCK_END True True),
              brk := Suc (brk s),
              m_tokens := m_tokens s @ [brk s]\<rparr>"
    have step: "PopIndentTo_loop s column = PopIndentTo_loop s' column"
      unfolding s'_def by (rule PopIndentTo_loop_step[OF Cons(2)[symmetric] True])
    have new: "queue_allocated s'" "block_starts s' = block_starts s"
      "block_ends s' = Suc (block_ends s)"
      using enqueue_new_counts[OF Cons(3), of s' "token TT_BLOCK_END True True"]
      by (simp_all add: s'_def token_def)
    have "rest = m_indents s'" by (simp add: s'_def)
    from Cons(1)[OF this new(1)] new Cons(2)[symmetric] show ?thesis
      by (simp add: step s'_def)
  next
    case False
    then show ?thesis
      using Cons(2)[symmetric] Cons(3) by (simp add: PopIndentTo_loop_stop)
  qed
qed

text \<open>
  \<^verbatim>\<open>PushIndentTo\<close> enqueues one block start token with every level that it pushes and
  no block end token; \<^verbatim>\<open>PopIndentTo\<close> enqueues one block end token with every level
  that it pops and no block start token, and it pops nothing in flow context.
\<close>

lemma block_tokens_follow_indentation_stack:
  assumes "queue_allocated s"
  shows "block_starts (state_of (PushIndentTo s column sequence)) + length (m_indents s)
           = block_starts s + length (m_indents (state_of (PushIndentTo s column sequence)))
       \<and> block_ends (state_of (PushIndentTo s column sequence)) = block_ends s
       \<and> queue_allocated (state_of (PushIndentTo s column sequence))
       \<and> block_starts (PopIndentTo s column) = block_starts s
       \<and> block_ends (PopIndentTo s column) + length (m_indents (PopIndentTo s column))
           = block_ends s + length (m_indents s)
       \<and> queue_allocated (PopIndentTo s column)
       \<and> (if m_flowLevel s > 0 then PopIndentTo s column = s else True)"
proof -
  let ?r = "PushIndentTo s column sequence"
  have push: "block_starts (state_of ?r) + length (m_indents s)
           = block_starts s + length (m_indents (state_of ?r))
       \<and> block_ends (state_of ?r) = block_ends s \<and> queue_allocated (state_of ?r)"
  proof (cases "m_flowLevel s \<le> 0 \<and> m_indents s \<noteq> [] \<and> hd (m_indents s) < column")
    case True
    then obtain i rest where eq: "m_indents s = i # rest" and lt: "i < column"
      by (cases "m_indents s") auto
    define tok where
      "tok = token (if sequence then TT_BLOCK_SEQ_START else TT_BLOCK_MAP_START) True True"
    define s' where "s' = s\<lparr>m_indents := column # m_indents s,
           heap := (heap s)(brk s \<mapsto> tok), brk := Suc (brk s),
           m_tokens := m_tokens s @ [brk s]\<rparr>"
    have call: "state_of ?r = s'"
      using True eq lt by (simp add: PushIndentTo_def new_Token_def token_def s'_def tok_def)
    have "queue_allocated s'" "block_starts s' = Suc (block_starts s)"
      "block_ends s' = block_ends s"
      using enqueue_new_counts[OF assms, of s' tok]
      by (simp_all add: s'_def tok_def token_def)
    then show ?thesis
      unfolding call by (simp add: s'_def)
  next
    case False
    then have "state_of ?r = s"
      by (auto simp: PushIndentTo_def split: list.splits)
    then show ?thesis using assms by simp
  qed
  have pop: "block_starts (PopIndentTo s column) = block_starts s
       \<and> block_ends (PopIndentTo s column) + length (m_indents (PopIndentTo s column))
           = block_ends s + length (m_indents s)
       \<and> queue_allocated (PopIndentTo s column)"
    using PopIndentTo_loop_counts[OF assms, of column] assms by (simp add: PopIndentTo_def)
  have flow: "if m_flowLevel s > 0 then PopIndentTo s column = s else True"
    by (simp add: PopIndentTo_def)
  from push pop flow show ?thesis by blast
qed

section \<open>The loop of GetNextToken\<close>

lemma GetNextToken_retracted:
  assumes "m_tokens s = p # ps" and "heap s p = Some tok" and "\<not> isPossible tok"
  shows "GetNextToken X s = GetNextToken X (delete_Token p (s\<lparr>m_tokens := ps\<rparr>))"
  using assms by (subst GetNextToken.simps) simp

lemma GetNextToken_confirmed:
  assumes "m_tokens s = p # ps" and "heap s p = Some tok" and "isPossible tok" and "isValid tok"
  shows "GetNextToken X s = Some (Return (Some p) (s\<lparr>m_tokens := ps\<rparr>))"
  using assms by (subst GetNextToken.simps) simp

lemma GetNextToken_tentative:
  assumes "m_tokens s = p # ps" and "heap s p = Some tok" and "isPossible tok" and "\<not> isValid tok"
  shows "GetNextToken X s =
           (if m_endedStream s then Some (Return None s)
            else case ScanNextToken X s of
                   None \<Rightarrow> None
                 | Some (Throw e s') \<Rightarrow> Some (Throw e s')
                 | Some (Return u s') \<Rightarrow> GetNextToken X s')"
  using assms by (subst GetNextToken.simps) (simp cong: option.case_cong result.case_cong)

lemma GetNextToken_empty:
  assumes "m_tokens s = []"
  shows "GetNextToken X s =
           (if m_endedStream s then Some (Return None s)
            else case ScanNextToken X s of
                   None \<Rightarrow> None
                 | Some (Throw e s') \<Rightarrow> Some (Throw e s')
                 | Some (Return u s') \<Rightarrow> GetNextToken X s')"
  using assms by (subst GetNextToken.simps) (simp cong: option.case_cong result.case_cong)

lemma GetNextToken_first:
  "GetNextToken yaml (Scanner_ctor inp) =
     Some (Return (Some 0) ((begun inp)\<lparr>heap := [0 \<mapsto> token TT_STREAM_START True True]\<rparr>))"
proof -
  have scan: "ScanNextToken yaml (Scanner_ctor inp) =
      Some (Return () ((begun inp)\<lparr>heap := [0 \<mapsto> token TT_STREAM_START True True],
                                   m_tokens := [0]\<rparr>))"
    by (simp add: ScanNextToken_def ScanAndEnqueue_def new_Token_def Scanner_ctor_def yaml_def
        yaml_ScanToken_def begun_def token_def)
  have e: "m_tokens (Scanner_ctor inp) = []" "\<not> m_endedStream (Scanner_ctor inp)"
    by (simp_all add: Scanner_ctor_def)
  have "GetNextToken yaml (Scanner_ctor inp) =
        GetNextToken yaml ((begun inp)\<lparr>heap := [0 \<mapsto> token TT_STREAM_START True True],
                                   m_tokens := [0]\<rparr>)"
    using GetNextToken_empty[OF e(1), of yaml] e(2) scan by simp
  also have "\<dots> = Some (Return (Some 0)
       ((begun inp)\<lparr>heap := [0 \<mapsto> token TT_STREAM_START True True]\<rparr>))"
    by (subst GetNextToken_confirmed[where p = 0 and ps = "[]"
          and tok = "token TT_STREAM_START True True"])
       (simp_all add: token_def begun_def Scanner_ctor_def)
  finally show ?thesis .
qed

lemma GetNextToken_never_returns:
  assumes "m_tokens s = []" and "\<not> m_endedStream s"
      and "ScanNextToken X s = Some (Return () s)"
  shows "GetNextToken X s = None"
proof (rule ccontr)
  assume "GetNextToken X s \<noteq> None"
  then obtain y where y: "GetNextToken X s = Some y"
    by auto
  have "\<not> (X' = X \<and> s' = s)" if run: "GetNextToken X' s' = Some y'" for X' s' y'
  proof (rule GetNextToken.raw_induct
      [where P = "\<lambda>Xa sa ya. \<not> (Xa = X \<and> sa = s)", OF _ run], goal_cases)
    case (1 f Xa sa ya)
    show ?case
    proof
      assume "Xa = X \<and> sa = s"
      with 1(2) assms have "f X s = Some ya"
        by simp
      with 1(1) show False
        by blast
    qed
  qed
  with y show False
    by blast
qed

lemma ScanNextToken_at_literal:
  "ScanNextToken yaml (begun ''|'') = Some (Return () (begun ''|''))"
  by (simp add: ScanNextToken_def ScanToNextToken.simps EatWhitespace.simps
        IsWhitespaceToBeEaten_def peek_char_def peek_def
        PopIndentTo_def PopIndentTo_loop.simps
        IsDocumentStart_def IsDocumentEnd_def IsBlockEntry_def IsKey_def IsValue_def
        Keys_FlowSeqStart_def Keys_FlowSeqEnd_def Keys_FlowMapStart_def Keys_FlowMapEnd_def
        Keys_FlowEntry_def Keys_LiteralScalar_def
        begun_def Scanner_ctor_def yaml_def starts_with_def indicator_def)

lemma ScanNextToken_at_folded:
  "ScanNextToken yaml (begun ''>'') = Some (Return () (begun ''>''))"
  by (simp add: ScanNextToken_def ScanToNextToken.simps EatWhitespace.simps
        IsWhitespaceToBeEaten_def peek_char_def peek_def
        PopIndentTo_def PopIndentTo_loop.simps
        IsDocumentStart_def IsDocumentEnd_def IsBlockEntry_def IsKey_def IsValue_def
        Keys_FlowSeqStart_def Keys_FlowSeqEnd_def Keys_FlowMapStart_def Keys_FlowMapEnd_def
        Keys_FlowEntry_def Keys_LiteralScalar_def Keys_FoldedScalar_def
        begun_def Scanner_ctor_def yaml_def starts_with_def indicator_def)

text \<open>
  C8. At a literal block scalar marker in block context \<^verbatim>\<open>ScanNextToken\<close> returns with
  the state as it was: no token is enqueued and nothing is read. With an empty queue
  \<^verbatim>\<open>GetNextToken\<close> then scans again and again and never returns, and neither does
  \<^verbatim>\<open>Scanner::Scan\<close> on the input \<^verbatim>\<open>|\<close>. The folded marker \<^verbatim>\<open>>\<close> does the same.
\<close>

theorem literal_marker_never_returns:
  "ScanNextToken yaml (begun ''|'') = Some (Return () (begun ''|''))
   \<and> GetNextToken yaml (begun ''|'') = None
   \<and> Scan yaml (Scanner_ctor ''|'') [] = None
   \<and> ScanNextToken yaml (begun ''>'') = Some (Return () (begun ''>''))
   \<and> GetNextToken yaml (begun ''>'') = None"
proof -
  have folded: "GetNextToken yaml (begun ''>'') = None"
    by (rule GetNextToken_never_returns[OF _ _ ScanNextToken_at_folded])
       (simp_all add: begun_def Scanner_ctor_def)
  have loop: "GetNextToken yaml (begun ''|'') = None"
    by (rule GetNextToken_never_returns[OF _ _ ScanNextToken_at_literal])
       (simp_all add: begun_def Scanner_ctor_def)
  have del: "delete_Token 0 ((begun ''|'')\<lparr>heap := [0 \<mapsto> token TT_STREAM_START True True]\<rparr>)
             = begun ''|''"
    by (simp add: delete_Token_def begun_def Scanner_ctor_def)
  have "Scan yaml (Scanner_ctor ''|'') [] = Scan yaml (begun ''|'') [token TT_STREAM_START True True]"
    by (subst Scan.simps) (simp add: GetNextToken_first del)
  also have "\<dots> = None"
    by (subst Scan.simps) (simp add: loop)
  finally show ?thesis
    using loop folded ScanNextToken_at_literal ScanNextToken_at_folded by simp
qed

lemma GetNextToken_invalid:
  assumes "m_tokens s = p # ps" and "heap s p = None"
  shows "GetNextToken X s = Some (Throw InvalidPointer s)"
  using assms by (subst GetNextToken.simps) simp

lemma GetNextToken_discards_retracted:
  assumes "m_tokens s = rs @ rest" and "distinct rs"
      and "\<forall>r \<in> set rs. \<exists>tok. heap s r = Some tok \<and> status_of tok = Retracted"
  shows "GetNextToken X s = GetNextToken X (fold delete_Token rs (s\<lparr>m_tokens := rest\<rparr>))"
  using assms
proof (induction rs arbitrary: s)
  case Nil
  then have "s\<lparr>m_tokens := rest\<rparr> = s"
    by (cases s) simp
  then show ?case by simp
next
  case (Cons r rs)
  from Cons.prems(3) obtain tok where tok: "heap s r = Some tok" "\<not> isPossible tok"
    by (auto simp: status_of_def split: if_splits)
  let ?s1 = "delete_Token r (s\<lparr>m_tokens := rs @ rest\<rparr>)"
  have step: "GetNextToken X s = GetNextToken X ?s1"
    using GetNextToken_retracted[of s r "rs @ rest" tok X] Cons.prems(1) tok by simp
  have "m_tokens ?s1 = rs @ rest" "distinct rs"
    using Cons.prems(2) by (simp_all add: delete_Token_def)
  moreover have "\<forall>r' \<in> set rs. \<exists>tok. heap ?s1 r' = Some tok \<and> status_of tok = Retracted"
    using Cons.prems(2,3) by (auto simp: delete_Token_def)
  ultimately have "GetNextToken X ?s1 =
      GetNextToken X (fold delete_Token rs (?s1\<lparr>m_tokens := rest\<rparr>))"
    by (rule Cons.IH)
  moreover have "?s1\<lparr>m_tokens := rest\<rparr> = delete_Token r (s\<lparr>m_tokens := rest\<rparr>)"
    by (simp add: delete_Token_def)
  ultimately show ?case using step by simp
qed

lemma GetNextToken_returns_nothing:
  assumes "GetNextToken X s = Some (Return None s')"
  shows "m_endedStream s' \<and> no_token_ready s'"
proof -
  have "\<forall>s'. y = Return None s' \<longrightarrow> m_endedStream s' \<and> no_token_ready s'"
    if run: "GetNextToken X s = Some y" for X s y
  proof (rule GetNextToken.raw_induct
      [where P = "\<lambda>X s y. \<forall>s'. y = Return None s' \<longrightarrow> m_endedStream s' \<and> no_token_ready s'",
       OF _ run], goal_cases)
    case (1 f X s y)
    show ?case
    proof (cases "m_tokens s")
      case Nil
      with 1 show ?thesis
        by (auto simp: no_token_ready_def split: if_splits option.splits result.splits)
    next
      case (Cons p ps)
      show ?thesis
      proof (cases "heap s p")
        case None
        with 1(2) Cons show ?thesis by auto
      next
        case (Some tok)
        show ?thesis
        proof (cases "status_of tok")
          case Retracted
          then have "\<not> isPossible tok"
            by (simp add: status_of_def split: if_splits)
          with 1(2) Cons Some have "f X (delete_Token p (s\<lparr>m_tokens := ps\<rparr>)) = Some y"
            by simp
          with 1(1) show ?thesis by blast
        next
          case Confirmed
          then have "isPossible tok \<and> isValid tok"
            by (simp add: status_of_def split: if_splits)
          with 1(2) Cons Some show ?thesis by auto
        next
          case Tentative
          then have flags: "isPossible tok \<and> \<not> isValid tok"
            by (simp add: status_of_def split: if_splits)
          have ready: "no_token_ready s"
            using Cons Some Tentative by (simp add: no_token_ready_def)
          from 1(2) Cons Some flags
          have "(if m_endedStream s then Some (Return None s)
                 else case ScanNextToken X s of
                        None \<Rightarrow> None
                      | Some (Throw e s') \<Rightarrow> Some (Throw e s')
                      | Some (Return u s') \<Rightarrow> f X s') = Some y"
            by (simp cong: option.case_cong result.case_cong)
          with 1(1) ready show ?thesis
            by (auto split: if_splits option.splits result.splits)
        qed
      qed
    qed
  qed
  with assms show ?thesis by blast
qed

text \<open>
  C3 (as amended). What \<^verbatim>\<open>GetNextToken\<close> does is decided by the token at the front of
  the queue: a retracted token is taken out of the queue and deleted, and the loop goes
  on; a confirmed token is taken out of the queue and returned, still live; a tentative
  token stays in the queue and counts as no token. With no token ready, the call returns
  nothing when the stream has ended and scans otherwise. It returns nothing only when the
  stream has ended and no token is ready: the queue is then empty or holds a tentative
  token at its front. A run of retracted tokens at the front of the queue is deleted as a
  whole before anything else is done.
\<close>

theorem GetNextToken_by_front_token:
  "GetNextToken X s =
     (case m_tokens s of
        [] \<Rightarrow>
          if m_endedStream s then Some (Return None s)
          else (case ScanNextToken X s of
                  None \<Rightarrow> None
                | Some (Throw e s') \<Rightarrow> Some (Throw e s')
                | Some (Return u s') \<Rightarrow> GetNextToken X s')
      | p # ps \<Rightarrow>
         (case heap s p of
            None \<Rightarrow> Some (Throw InvalidPointer s)
          | Some tok \<Rightarrow>
             (case status_of tok of
                Retracted \<Rightarrow> GetNextToken X (delete_Token p (s\<lparr>m_tokens := ps\<rparr>))
              | Confirmed \<Rightarrow> Some (Return (Some p) (s\<lparr>m_tokens := ps\<rparr>))
              | Tentative \<Rightarrow>
                  if m_endedStream s then Some (Return None s)
                  else (case ScanNextToken X s of
                          None \<Rightarrow> None
                        | Some (Throw e s') \<Rightarrow> Some (Throw e s')
                        | Some (Return u s') \<Rightarrow> GetNextToken X s'))))
   \<and> (GetNextToken X s = Some (Return None s') \<longrightarrow> m_endedStream s' \<and> no_token_ready s')
   \<and> (m_endedStream s \<and> no_token_ready s \<longrightarrow> GetNextToken X s = Some (Return None s))
   \<and> (m_tokens s = rs @ rest \<and> distinct rs
        \<and> (\<forall>r \<in> set rs. \<exists>tok. heap s r = Some tok \<and> status_of tok = Retracted)
      \<longrightarrow> GetNextToken X s = GetNextToken X (fold delete_Token rs (s\<lparr>m_tokens := rest\<rparr>)))"
proof -
  have discards: "m_tokens s = rs @ rest \<and> distinct rs
        \<and> (\<forall>r \<in> set rs. \<exists>tok. heap s r = Some tok \<and> status_of tok = Retracted)
      \<longrightarrow> GetNextToken X s = GetNextToken X (fold delete_Token rs (s\<lparr>m_tokens := rest\<rparr>))"
    using GetNextToken_discards_retracted[of s rs rest X] by blast
  have only_ended:
    "GetNextToken X s = Some (Return None s') \<longrightarrow> m_endedStream s' \<and> no_token_ready s'"
    using GetNextToken_returns_nothing[of X s s'] by (rule impI)
  have "GetNextToken X s = Some (Return None s)"
    if a: "m_endedStream s \<and> no_token_ready s"
  proof (cases "m_tokens s")
    case Nil
    with a show ?thesis by (simp add: GetNextToken_empty)
  next
    case (Cons p ps)
    with a obtain tok where tok: "heap s p = Some tok" "status_of tok = Tentative"
      by (auto simp: no_token_ready_def split: option.splits)
    then have "isPossible tok" "\<not> isValid tok"
      by (simp_all add: status_of_def split: if_splits)
    with a Cons tok show ?thesis by (simp add: GetNextToken_tentative)
  qed
  then have ended:
    "m_endedStream s \<and> no_token_ready s \<longrightarrow> GetNextToken X s = Some (Return None s)"
    by (rule impI)
  have front: "GetNextToken X s =
     (case m_tokens s of
        [] \<Rightarrow>
          if m_endedStream s then Some (Return None s)
          else (case ScanNextToken X s of
                  None \<Rightarrow> None
                | Some (Throw e s') \<Rightarrow> Some (Throw e s')
                | Some (Return u s') \<Rightarrow> GetNextToken X s')
      | p # ps \<Rightarrow>
         (case heap s p of
            None \<Rightarrow> Some (Throw InvalidPointer s)
          | Some tok \<Rightarrow>
             (case status_of tok of
                Retracted \<Rightarrow> GetNextToken X (delete_Token p (s\<lparr>m_tokens := ps\<rparr>))
              | Confirmed \<Rightarrow> Some (Return (Some p) (s\<lparr>m_tokens := ps\<rparr>))
              | Tentative \<Rightarrow>
                  if m_endedStream s then Some (Return None s)
                  else (case ScanNextToken X s of
                          None \<Rightarrow> None
                        | Some (Throw e s') \<Rightarrow> Some (Throw e s')
                        | Some (Return u s') \<Rightarrow> GetNextToken X s'))))"
  proof (cases "m_tokens s")
    case Nil
    then show ?thesis using GetNextToken_empty[OF Nil, of X] by simp
  next
    case (Cons p ps)
    show ?thesis
    proof (cases "heap s p")
      case None
      with Cons show ?thesis by (simp add: GetNextToken_invalid)
    next
      case (Some tok)
      show ?thesis
      proof (cases "status_of tok")
        case Retracted
        then have "\<not> isPossible tok"
          by (simp add: status_of_def split: if_splits)
        from GetNextToken_retracted[OF Cons Some this, of X] Cons Some Retracted
        show ?thesis by simp
      next
        case Confirmed
        then have "isPossible tok" "isValid tok"
          by (simp_all add: status_of_def split: if_splits)
        from GetNextToken_confirmed[OF Cons Some this, of X] Cons Some Confirmed
        show ?thesis by simp
      next
        case Tentative
        then have "isPossible tok" "\<not> isValid tok"
          by (simp_all add: status_of_def split: if_splits)
        from GetNextToken_tentative[OF Cons Some this, of X] Cons Some Tentative
        show ?thesis by simp
      qed
    qed
  qed
  show ?thesis
    by (rule conjI, rule front, rule conjI, rule only_ended, rule conjI, rule ended,
        rule discards)
qed

theorem GetNextToken_by_front_token_witness:
  "value_of (the (GetNextToken yaml
      (queued [token TT_KEY False False, token TT_PLAIN_SCALAR True True] True))) = Some 1
   \<and> heap (state_of (the (GetNextToken yaml
      (queued [token TT_KEY False False, token TT_PLAIN_SCALAR True True] True)))) 0 = None
   \<and> heap (state_of (the (GetNextToken yaml
      (queued [token TT_KEY False False, token TT_PLAIN_SCALAR True True] True)))) 1
       = Some (token TT_PLAIN_SCALAR True True)
   \<and> m_tokens (state_of (the (GetNextToken yaml
      (queued [token TT_KEY False False, token TT_PLAIN_SCALAR True True] True)))) = []
   \<and> m_endedStream (queued [token TT_KEY True False] True)
   \<and> no_token_ready (queued [token TT_KEY True False] True)
   \<and> GetNextToken yaml (queued [token TT_KEY True False] True)
       = Some (Return None (queued [token TT_KEY True False] True))"
proof -
  let ?A = "queued [token TT_KEY False False, token TT_PLAIN_SCALAR True True] True"
  let ?A' = "delete_Token 0 (?A\<lparr>m_tokens := [1]\<rparr>)"
  let ?B = "queued [token TT_KEY True False] True"
  have A: "m_tokens ?A = [0, 1]" "heap ?A 0 = Some (token TT_KEY False False)"
    by (simp_all add: queued_def upt_rec[of 0] upt_rec[of 1])
  have A': "m_tokens ?A' = [1]" "heap ?A' 1 = Some (token TT_PLAIN_SCALAR True True)"
    "heap ?A' 0 = None"
    by (simp_all add: queued_def delete_Token_def)
  have B: "m_endedStream ?B" "no_token_ready ?B"
    by (simp_all add: queued_def no_token_ready_def status_of_def token_def)
  have st: "status_of (token TT_KEY False False) = Retracted"
    "status_of (token TT_PLAIN_SCALAR True True) = Confirmed"
    by (simp_all add: status_of_def token_def)
  have 1: "GetNextToken yaml ?A = GetNextToken yaml ?A'"
    using conjunct1[OF GetNextToken_by_front_token[of yaml ?A]] A st by simp
  have 2: "GetNextToken yaml ?A' = Some (Return (Some 1) (?A'\<lparr>m_tokens := []\<rparr>))"
    using conjunct1[OF GetNextToken_by_front_token[of yaml ?A']] A' st by simp
  have 3: "GetNextToken yaml ?B = Some (Return None ?B)"
    using conjunct1[OF conjunct2[OF conjunct2[OF GetNextToken_by_front_token[of yaml ?B]]]] B
    by simp
  show ?thesis
    unfolding 1 2 3 using A' B by simp
qed

text \<open>
  C3 (counterexample). The stream has ended and a tentative token is at the front of the
  queue: \<^verbatim>\<open>GetNextToken\<close> returns nothing, and the queue is not empty.
\<close>

theorem tentative_front_at_end_returns_nothing:
  "GetNextToken yaml (queued [token TT_KEY True False] True)
     = Some (Return None (queued [token TT_KEY True False] True))
   \<and> m_endedStream (queued [token TT_KEY True False] True)
   \<and> m_tokens (queued [token TT_KEY True False] True) = [0]"
proof -
  let ?B = "queued [token TT_KEY True False] True"
  have q: "m_tokens ?B = [0]" and h: "heap ?B 0 = Some (token TT_KEY True False)"
    and e: "m_endedStream ?B"
    by (simp_all add: queued_def)
  have "GetNextToken yaml ?B = Some (Return None ?B)"
    using GetNextToken_tentative[OF q h, of yaml] e by (simp add: token_def)
  with q e show ?thesis by simp
qed

section \<open>White space\<close>

lemma flow_level_never_negative:
  "m_flowLevel (Scanner_ctor inp) = 0"
  "0 \<le> m_flowLevel s \<Longrightarrow> 0 \<le> m_flowLevel (IncreaseFlowLevel s)"
  "0 \<le> m_flowLevel s \<Longrightarrow> 0 \<le> m_flowLevel (DecreaseFlowLevel s)"
  by (simp_all add: Scanner_ctor_def IncreaseFlowLevel_def DecreaseFlowLevel_def)

lemma tab_always_eaten:
  "0 \<le> m_flowLevel s \<Longrightarrow> IsWhitespaceToBeEaten s (CHR 0x09)"
  by (simp add: IsWhitespaceToBeEaten_def)

text \<open>
  C2. In \<^verbatim>\<open>IsWhitespaceToBeEaten\<close> the test of the flow level is \<^verbatim>\<open>m_flowLevel >= 0\<close>, which
  holds in block context too: a tab is eaten in block context where a simple key is
  allowed. On the input of a line break, a tab and \<^verbatim>\<open>k\<close>, \<^verbatim>\<open>ScanToNextToken\<close> eats the
  line break, allows a simple key for the new line, and eats the tab.
\<close>

theorem tab_eaten_where_simple_key_allowed:
  "IsWhitespaceToBeEaten ((Scanner_ctor [CHR 0x09, CHR ''k''])\<lparr>m_simpleKeyAllowed := True\<rparr>) (CHR 0x09)
   \<and> m_flowLevel ((Scanner_ctor [CHR 0x09, CHR ''k''])\<lparr>m_simpleKeyAllowed := True\<rparr>) = 0
   \<and> map_option (\<lambda>s. (INPUT s, m_flowLevel s, m_simpleKeyAllowed s, m_line s, m_column s))
         (ScanToNextToken yaml (Scanner_ctor [CHR 0x0A, CHR 0x09, CHR ''k'']))
       = Some (''k'', 0, True, 1, 1)"
proof -
  have "IsWhitespaceToBeEaten ((Scanner_ctor [CHR 0x09, CHR ''k''])\<lparr>m_simpleKeyAllowed := True\<rparr>)
          (CHR 0x09)"
    by (simp add: IsWhitespaceToBeEaten_def Scanner_ctor_def)
  moreover have "m_flowLevel ((Scanner_ctor [CHR 0x09, CHR ''k''])\<lparr>m_simpleKeyAllowed := True\<rparr>) = 0"
    by (simp add: Scanner_ctor_def)
  moreover have "map_option (\<lambda>s. (INPUT s, m_flowLevel s, m_simpleKeyAllowed s, m_line s, m_column s))
         (ScanToNextToken yaml (Scanner_ctor [CHR 0x0A, CHR 0x09, CHR ''k'']))
       = Some (''k'', 0, True, 1, 1)"
    by code_simp
  ultimately show ?thesis by blast
qed

section \<open>The tokens of a flow sequence\<close>

text \<open>
  C6. On the input \<^verbatim>\<open>[1,2]\<close> the scanner delivers, in this order, the flow sequence
  start, the plain scalar \<^verbatim>\<open>1\<close>, the flow entry, the plain scalar \<^verbatim>\<open>2\<close> and the flow
  sequence end, after the stream start, which is the first token, and before the stream
  end, which comes at the end of the input; then it delivers no token.
\<close>

theorem tokens_of_flow_sequence:
  "printed (Scan yaml (Scanner_ctor ''[1,2]'') []) =
     Some [(TT_STREAM_START, []), (TT_FLOW_SEQ_START, []), (TT_PLAIN_SCALAR, ''1''),
           (TT_FLOW_ENTRY, []), (TT_PLAIN_SCALAR, ''2''), (TT_FLOW_SEQ_END, []),
           (TT_STREAM_END, [])]"
  by code_simp

section \<open>The mapping parser\<close>

lemma bind_result_simps [simp]:
  "bind_result None f = None"
  "bind_result (Some (Throw e s)) f = Some (Throw e s)"
  "bind_result (Some (Return v s)) f = f v s"
  by (simp_all add: bind_result_def)

lemma ParseFlow_no_key:
  assumes "PeekNextToken A s = Some (Return (Some p) s1)" and "heap s1 p = Some tok"
      and "ttype tok \<noteq> TT_FLOW_MAP_END" and "ttype tok \<noteq> TT_KEY"
  shows "ParseFlow A m_data s = Some (Return m_data s1)"
  using assms by (subst ParseFlow.simps) (simp add: ParseFlow_body_def)

lemma ParseFlow_after_entry:
  assumes "PeekNextToken A s = Some (Return (Some p) s1)" and "heap s1 p = Some tok"
      and "ttype tok = TT_KEY"
      and "PopNextToken A s1 = Some (Return () s2)"
      and "Map_entry A m_data s2 = Some (Return m_data' s3)"
      and "PeekNextToken A s3 = Some (Return pToken s4)"
  shows "ParseFlow A m_data s =
           (case pToken of
              None \<Rightarrow> Some (Throw NullDereference s4)
            | Some q \<Rightarrow>
               (case heap s4 q of
                  None \<Rightarrow> Some (Throw InvalidPointer s4)
                | Some tok' \<Rightarrow>
                    if ttype tok' = TT_FLOW_ENTRY
                    then bind_result (EatNextToken A s4) (\<lambda>u s5. ParseFlow A m_data' s5)
                    else if ttype tok' \<noteq> TT_FLOW_MAP_END then Some (Return m_data' s4)
                    else ParseFlow A m_data' s4))"
  using assms
  by (subst ParseFlow.simps)
     (auto simp: ParseFlow_body_def bind_result_def split: option.splits result.splits)

text \<open>
  C1 (as amended). Where \<^verbatim>\<open>Map::ParseFlow\<close> expects a key and peeks a token that is
  neither a key nor the end of the flow mapping, and where it has parsed an entry and peeks
  a token that is neither a flow entry nor the end of the flow mapping, it leaves its loop
  and returns with no error: the mapping holds the entries inserted so far, and the
  token is left in the queue.
\<close>

theorem ParseFlow_stops_without_error:
  "(PeekNextToken A s = Some (Return (Some p) s1) \<and> heap s1 p = Some tok
      \<and> ttype tok \<noteq> TT_FLOW_MAP_END \<and> ttype tok \<noteq> TT_KEY
     \<longrightarrow> ParseFlow A m_data s = Some (Return m_data s1))
   \<and> (PeekNextToken A s = Some (Return (Some p) s1) \<and> heap s1 p = Some tok
      \<and> ttype tok = TT_KEY
      \<and> PopNextToken A s1 = Some (Return () s2)
      \<and> Map_entry A m_data s2 = Some (Return m_data' s3)
      \<and> PeekNextToken A s3 = Some (Return (Some q) s4) \<and> heap s4 q = Some tok'
      \<and> ttype tok' \<noteq> TT_FLOW_ENTRY \<and> ttype tok' \<noteq> TT_FLOW_MAP_END
     \<longrightarrow> ParseFlow A m_data s = Some (Return m_data' s4))"
proof (rule conjI; rule impI; elim conjE)
  assume "PeekNextToken A s = Some (Return (Some p) s1)" "heap s1 p = Some tok"
    "ttype tok \<noteq> TT_FLOW_MAP_END" "ttype tok \<noteq> TT_KEY"
  then show "ParseFlow A m_data s = Some (Return m_data s1)"
    by (rule ParseFlow_no_key)
next
  assume a: "PeekNextToken A s = Some (Return (Some p) s1)" "heap s1 p = Some tok"
    "ttype tok = TT_KEY" "PopNextToken A s1 = Some (Return () s2)"
    "Map_entry A m_data s2 = Some (Return m_data' s3)"
    "PeekNextToken A s3 = Some (Return (Some q) s4)"
    and b: "heap s4 q = Some tok'" "ttype tok' \<noteq> TT_FLOW_ENTRY" "ttype tok' \<noteq> TT_FLOW_MAP_END"
  show "ParseFlow A m_data s = Some (Return m_data' s4)"
    using ParseFlow_after_entry[OF a] b by simp
qed

section \<open>The parser on the scanner of the instance\<close>

lemma Peek_queued:
  assumes "m_tokens s = p # ps"
  shows "Scanner_PeekNextToken X s = Some (Return (Some p) s)"
  using assms by (subst Scanner_PeekNextToken.simps) simp

lemma Peek_ended:
  assumes "m_tokens s = []" and "m_endedStream s"
  shows "Scanner_PeekNextToken X s = Some (Return None s)"
  using assms by (subst Scanner_PeekNextToken.simps) simp

lemma Pop_queued:
  assumes "m_tokens s = p # ps"
  shows "Scanner_PopNextToken X s = Some (Return () (delete_Token p (s\<lparr>m_tokens := ps\<rparr>)))"
  using assms by (simp add: Scanner_PopNextToken_def Peek_queued)

lemma Node_Parse_scalar_queued:
  assumes "m_tokens s = p # ps" and "heap s p = Some tok" and "ttype tok = TT_PLAIN_SCALAR"
  shows "Node_Parse_scalar X s =
           Some (Return (CT_SCALAR (tvalue tok)) (delete_Token p (s\<lparr>m_tokens := ps\<rparr>)))"
  using assms by (simp add: Node_Parse_scalar_def Peek_queued Pop_queued)

lemma Map_entry_with_value:
  assumes "m_tokens s = k # c # v # rest"
      and "heap s k = Some ktok" and "ttype ktok = TT_PLAIN_SCALAR"
      and "heap s c = Some ctok" and "ttype ctok = TT_VALUE"
      and "heap s v = Some vtok" and "ttype vtok = TT_PLAIN_SCALAR"
      and "distinct [k, c, v]"
  shows "Map_entry (parsing X) m_data s =
           Some (Return (m_data @ [(CT_SCALAR (tvalue ktok), CT_SCALAR (tvalue vtok))])
                   (delete_Token v (delete_Token c (delete_Token k (s\<lparr>m_tokens := rest\<rparr>)))))"
proof -
  let ?s1 = "delete_Token k (s\<lparr>m_tokens := c # v # rest\<rparr>)"
  let ?s2 = "delete_Token c (?s1\<lparr>m_tokens := v # rest\<rparr>)"
  have key: "Node_Parse_scalar X s = Some (Return (CT_SCALAR (tvalue ktok)) ?s1)"
    using assms(1-3) by (rule Node_Parse_scalar_queued)
  have q1: "m_tokens ?s1 = c # v # rest" and h1: "heap ?s1 c = Some ctok"
    using assms(4,8) by (auto simp: delete_Token_def)
  have q2: "m_tokens ?s2 = v # rest" and h2: "heap ?s2 v = Some vtok"
    using assms(6,8) by (auto simp: delete_Token_def)
  have val: "Node_Parse_scalar X ?s2 =
      Some (Return (CT_SCALAR (tvalue vtok)) (delete_Token v (?s2\<lparr>m_tokens := rest\<rparr>)))"
    using q2 h2 assms(7) by (rule Node_Parse_scalar_queued)
  show ?thesis
    using key val h1 assms(5)
    by (simp add: Map_entry_def parsing_def Peek_queued[OF q1] Pop_queued[OF q1])
       (simp add: delete_Token_def)
qed

lemma missing_separator_queue:
  "m_tokens missing_separator = [0, 1, 2, 3, 4, 5, 6, 7, 8, 9]"
  by code_simp

lemma missing_separator_heap:
  "heap missing_separator 0 = Some (token TT_KEY True True)"
  "heap missing_separator 1 = Some (scalar ''a'')"
  "heap missing_separator 2 = Some (token TT_VALUE True True)"
  "heap missing_separator 3 = Some (scalar ''1'')"
  "heap missing_separator 4 = Some (token TT_KEY True True)"
  by (simp_all add: missing_separator_def queued_def)

lemma missing_separator_steps:
  "PeekNextToken (parsing yaml) missing_separator = Some (Return (Some 0) missing_separator)"
  "PopNextToken (parsing yaml) missing_separator =
     Some (Return () (delete_Token 0 (missing_separator\<lparr>m_tokens := [1, 2, 3, 4, 5, 6, 7, 8, 9]\<rparr>)))"
  "Map_entry (parsing yaml) []
     (delete_Token 0 (missing_separator\<lparr>m_tokens := [1, 2, 3, 4, 5, 6, 7, 8, 9]\<rparr>)) =
     Some (Return [(CT_SCALAR ''a'', CT_SCALAR ''1'')]
       (delete_Token 3 (delete_Token 2 (delete_Token 1 (delete_Token 0
          (missing_separator\<lparr>m_tokens := [4, 5, 6, 7, 8, 9]\<rparr>))))))"
  "PeekNextToken (parsing yaml)
     (delete_Token 3 (delete_Token 2 (delete_Token 1 (delete_Token 0
          (missing_separator\<lparr>m_tokens := [4, 5, 6, 7, 8, 9]\<rparr>))))) =
     Some (Return (Some 4)
       (delete_Token 3 (delete_Token 2 (delete_Token 1 (delete_Token 0
          (missing_separator\<lparr>m_tokens := [4, 5, 6, 7, 8, 9]\<rparr>))))))"
  "heap (delete_Token 3 (delete_Token 2 (delete_Token 1 (delete_Token 0
          (missing_separator\<lparr>m_tokens := [4, 5, 6, 7, 8, 9]\<rparr>))))) 4 =
     Some (token TT_KEY True True)"
proof -
  let ?s2 = "delete_Token 0 (missing_separator\<lparr>m_tokens := [1, 2, 3, 4, 5, 6, 7, 8, 9]\<rparr>)"
  show "PeekNextToken (parsing yaml) missing_separator = Some (Return (Some 0) missing_separator)"
    by (simp add: parsing_def Peek_queued[OF missing_separator_queue])
  show "PopNextToken (parsing yaml) missing_separator = Some (Return () ?s2)"
    by (simp add: parsing_def Pop_queued[OF missing_separator_queue])
  have q: "m_tokens ?s2 = 1 # 2 # 3 # [4, 5, 6, 7, 8, 9]"
    by (simp add: delete_Token_def)
  have h: "heap ?s2 1 = Some (scalar ''a'')" "heap ?s2 2 = Some (token TT_VALUE True True)"
    "heap ?s2 3 = Some (scalar ''1'')"
    by (simp_all add: delete_Token_def missing_separator_def queued_def)
  show "Map_entry (parsing yaml) [] ?s2 =
     Some (Return [(CT_SCALAR ''a'', CT_SCALAR ''1'')]
       (delete_Token 3 (delete_Token 2 (delete_Token 1 (delete_Token 0
          (missing_separator\<lparr>m_tokens := [4, 5, 6, 7, 8, 9]\<rparr>))))))"
    using Map_entry_with_value[OF q h(1) _ h(2) _ h(3), of yaml "[]"]
    by (simp add: scalar_def token_def delete_Token_def)
  show "PeekNextToken (parsing yaml)
     (delete_Token 3 (delete_Token 2 (delete_Token 1 (delete_Token 0
          (missing_separator\<lparr>m_tokens := [4, 5, 6, 7, 8, 9]\<rparr>))))) =
     Some (Return (Some 4)
       (delete_Token 3 (delete_Token 2 (delete_Token 1 (delete_Token 0
          (missing_separator\<lparr>m_tokens := [4, 5, 6, 7, 8, 9]\<rparr>))))))"
    by (simp add: parsing_def Peek_queued[where p = 4 and ps = "[5, 6, 7, 8, 9]"] delete_Token_def)
  show "heap (delete_Token 3 (delete_Token 2 (delete_Token 1 (delete_Token 0
          (missing_separator\<lparr>m_tokens := [4, 5, 6, 7, 8, 9]\<rparr>))))) 4 =
     Some (token TT_KEY True True)"
    by (simp add: delete_Token_def missing_separator_def queued_def)
qed

theorem ParseFlow_stops_without_error_witness:
  "PeekNextToken (parsing yaml) (queued [scalar ''a''] True)
     = Some (Return (Some 0) (queued [scalar ''a''] True))
   \<and> heap (queued [scalar ''a''] True) 0 = Some (scalar ''a'')
   \<and> ParseFlow (parsing yaml) [] (queued [scalar ''a''] True)
     = Some (Return [] (queued [scalar ''a''] True))
   \<and> ParseFlow (parsing yaml) [] missing_separator =
     Some (Return [(CT_SCALAR ''a'', CT_SCALAR ''1'')]
       (delete_Token 3 (delete_Token 2 (delete_Token 1 (delete_Token 0
          (missing_separator\<lparr>m_tokens := [4, 5, 6, 7, 8, 9]\<rparr>))))))"
proof -
  let ?a = "queued [scalar ''a''] True"
  have q: "m_tokens ?a = [0]" and h: "heap ?a 0 = Some (scalar ''a'')"
    by (simp_all add: queued_def)
  have pk: "PeekNextToken (parsing yaml) ?a = Some (Return (Some 0) ?a)"
    by (simp add: parsing_def Peek_queued[OF q])
  have ty: "ttype (scalar ''a'') \<noteq> TT_FLOW_MAP_END" "ttype (scalar ''a'') \<noteq> TT_KEY"
    "ttype (token TT_KEY True True) = TT_KEY"
    "ttype (token TT_KEY True True) \<noteq> TT_FLOW_ENTRY"
    "ttype (token TT_KEY True True) \<noteq> TT_FLOW_MAP_END"
    by (simp_all add: scalar_def token_def)
  have 1: "ParseFlow (parsing yaml) [] ?a = Some (Return [] ?a)"
    using conjunct1[OF ParseFlow_stops_without_error
        [of "parsing yaml" ?a 0 ?a "scalar ''a''" "[]"]] pk h ty
    by simp
  have 2: "ParseFlow (parsing yaml) [] missing_separator =
     Some (Return [(CT_SCALAR ''a'', CT_SCALAR ''1'')]
       (delete_Token 3 (delete_Token 2 (delete_Token 1 (delete_Token 0
          (missing_separator\<lparr>m_tokens := [4, 5, 6, 7, 8, 9]\<rparr>))))))"
    using conjunct2[OF ParseFlow_stops_without_error
        [of "parsing yaml" missing_separator 0 missing_separator "token TT_KEY True True" "[]"]]
      missing_separator_steps missing_separator_heap(1) ty
    by blast
  from pk h 1 2 show ?thesis by blast
qed

text \<open>
  C1 (counterexample). The tokens of \<^verbatim>\<open>{a: 1 b: 2}\<close>: after the entry of \<^verbatim>\<open>a\<close> the parser
  peeks the key token of \<^verbatim>\<open>b\<close>, and \<^verbatim>\<open>Map::ParseFlow\<close> returns the mapping with the one
  entry; the rest of the tokens stays in the queue.
\<close>

theorem missing_separator_returns_normally:
  "ParseFlow (parsing yaml) [] missing_separator =
     Some (Return [(CT_SCALAR ''a'', CT_SCALAR ''1'')]
       (delete_Token 3 (delete_Token 2 (delete_Token 1 (delete_Token 0
          (missing_separator\<lparr>m_tokens := [4, 5, 6, 7, 8, 9]\<rparr>))))))"
  using ParseFlow_after_entry[OF missing_separator_steps(1) missing_separator_heap(1) _
      missing_separator_steps(2,3,4)] missing_separator_steps(5)
  by (simp add: token_def)

section \<open>Null pointers in the parser\<close>

text \<open>
  C9. \<^verbatim>\<open>Map::Parse\<close> dereferences what \<^verbatim>\<open>GetNextToken\<close> returns: when that is the null
  pointer, as it is when the stream has ended and the queue is empty, the null pointer is
  dereferenced; when it is a live token, the parser goes on by its type. \<^verbatim>\<open>Map::ParseFlow\<close>
  dereferences what \<^verbatim>\<open>PeekNextToken\<close> returns after an entry: when that is the null
  pointer, the null pointer is dereferenced.
\<close>

theorem null_token_is_dereferenced:
  "(GetNextToken X s = Some (Return None s1)
     \<longrightarrow> Map_Parse A X m_data s = Some (Throw NullDereference s1))
   \<and> (m_endedStream s \<and> m_tokens s = []
     \<longrightarrow> Map_Parse A X m_data s = Some (Throw NullDereference s))
   \<and> (GetNextToken X s = Some (Return (Some p) s1) \<and> heap s1 p = Some tok
     \<longrightarrow> Map_Parse A X m_data s =
          bind_result
            (case ttype tok of
               TT_BLOCK_MAP_START \<Rightarrow> ParseBlock A m_data s1
             | TT_FLOW_MAP_START \<Rightarrow> ParseFlow A m_data s1
             | _ \<Rightarrow> Some (Return m_data s1))
            (\<lambda>m_data' s2. Some (Return m_data' (delete_Token p s2))))
   \<and> (PeekNextToken A s = Some (Return (Some k) s1) \<and> heap s1 k = Some ktok
      \<and> ttype ktok = TT_KEY
      \<and> PopNextToken A s1 = Some (Return () s2)
      \<and> Map_entry A m_data s2 = Some (Return m_data' s3)
      \<and> PeekNextToken A s3 = Some (Return None s4)
     \<longrightarrow> ParseFlow A m_data s = Some (Throw NullDereference s4))"
proof -
  have null: "Map_Parse A X m_data s = Some (Throw NullDereference s1)"
    if "GetNextToken X s = Some (Return None s1)" for s1
    using that by (simp add: Map_Parse_def)
  have ended: "Map_Parse A X m_data s = Some (Throw NullDereference s)"
    if "m_endedStream s \<and> m_tokens s = []"
  proof -
    from that have "GetNextToken X s = Some (Return None s)"
      by (simp add: GetNextToken_empty)
    then show ?thesis by (rule null)
  qed
  have live: "Map_Parse A X m_data s =
          bind_result
            (case ttype tok of
               TT_BLOCK_MAP_START \<Rightarrow> ParseBlock A m_data s1
             | TT_FLOW_MAP_START \<Rightarrow> ParseFlow A m_data s1
             | _ \<Rightarrow> Some (Return m_data s1))
            (\<lambda>m_data' s2. Some (Return m_data' (delete_Token p s2)))"
    if "GetNextToken X s = Some (Return (Some p) s1) \<and> heap s1 p = Some tok"
    using that by (simp add: Map_Parse_def)
  have flow: "ParseFlow A m_data s = Some (Throw NullDereference s4)"
    if "PeekNextToken A s = Some (Return (Some k) s1) \<and> heap s1 k = Some ktok
      \<and> ttype ktok = TT_KEY
      \<and> PopNextToken A s1 = Some (Return () s2)
      \<and> Map_entry A m_data s2 = Some (Return m_data' s3)
      \<and> PeekNextToken A s3 = Some (Return None s4)"
  proof -
    from that have a: "PeekNextToken A s = Some (Return (Some k) s1)" "heap s1 k = Some ktok"
      "ttype ktok = TT_KEY" "PopNextToken A s1 = Some (Return () s2)"
      "Map_entry A m_data s2 = Some (Return m_data' s3)"
      "PeekNextToken A s3 = Some (Return None s4)"
      by blast+
    from ParseFlow_after_entry[OF a] show ?thesis by simp
  qed
  from null ended live flow show ?thesis by blast
qed

theorem null_token_is_dereferenced_witness:
  "m_endedStream (queued [] True) \<and> m_tokens (queued [] True) = []
   \<and> GetNextToken yaml (queued [] True) = Some (Return None (queued [] True))
   \<and> Map_Parse (parsing yaml) yaml [] (queued [] True)
       = Some (Throw NullDereference (queued [] True))
   \<and> ParseFlow (parsing yaml) [] (queued [token TT_KEY True True, scalar ''a''] True)
       = Some (Throw NullDereference
           (delete_Token (Suc 0) (delete_Token 0
              ((queued [token TT_KEY True True, scalar ''a''] True)\<lparr>m_tokens := []\<rparr>))))"
proof -
  let ?e = "queued [] True"
  let ?k = "queued [token TT_KEY True True, scalar ''a''] True"
  let ?k2 = "delete_Token 0 (?k\<lparr>m_tokens := [Suc 0]\<rparr>)"
  let ?k3 = "delete_Token (Suc 0) (delete_Token 0 (?k\<lparr>m_tokens := []\<rparr>))"
  have e: "m_endedStream ?e" "m_tokens ?e = []"
    by (simp_all add: queued_def)
  have get: "GetNextToken yaml ?e = Some (Return None ?e)"
    using e by (simp add: GetNextToken_empty)
  have 1: "Map_Parse (parsing yaml) yaml [] ?e = Some (Throw NullDereference ?e)"
    using conjunct1[OF null_token_is_dereferenced
        [where X = yaml and s = ?e and ?s1.0 = ?e and A = "parsing yaml" and m_data = "[]"]] get
    by simp
  have q: "m_tokens ?k = [0, Suc 0]" and h: "heap ?k 0 = Some (token TT_KEY True True)"
    by (simp_all add: queued_def upt_rec[of 0] upt_rec[of 1])
  have pk: "PeekNextToken (parsing yaml) ?k = Some (Return (Some 0) ?k)"
    by (simp add: parsing_def Peek_queued[OF q])
  have pop: "PopNextToken (parsing yaml) ?k = Some (Return () ?k2)"
    by (simp add: parsing_def Pop_queued[OF q])
  have q2: "m_tokens ?k2 = [Suc 0]" and h2: "heap ?k2 (Suc 0) = Some (scalar ''a'')"
    by (simp_all add: queued_def delete_Token_def)
  have key: "Node_Parse_scalar yaml ?k2 =
      Some (Return (CT_SCALAR ''a'') (delete_Token (Suc 0) (?k2\<lparr>m_tokens := []\<rparr>)))"
    using Node_Parse_scalar_queued[OF q2 h2, of yaml] by (simp add: scalar_def)
  have k3: "delete_Token (Suc 0) (?k2\<lparr>m_tokens := []\<rparr>) = ?k3"
    by (simp add: delete_Token_def)
  have end3: "m_tokens ?k3 = []" "m_endedStream ?k3"
    by (simp_all add: delete_Token_def queued_def)
  have pk3: "PeekNextToken (parsing yaml) ?k3 = Some (Return None ?k3)"
    using Peek_ended[OF end3, of yaml] by (simp add: parsing_def)
  have entry: "Map_entry (parsing yaml) [] ?k2 = Some (Return [(CT_SCALAR ''a'', CT_NONE)] ?k3)"
    using key pk3 by (simp add: Map_entry_def k3 Let_def) (simp add: parsing_def)
  have 2: "ParseFlow (parsing yaml) [] ?k = Some (Throw NullDereference ?k3)"
    using conjunct2[OF conjunct2[OF conjunct2[OF null_token_is_dereferenced
        [where A = "parsing yaml" and s = ?k and m_data = "[]" and k = 0 and ?s1.0 = ?k
           and ktok = "token TT_KEY True True" and ?s2.0 = ?k2
           and m_data' = "[(CT_SCALAR ''a'', CT_NONE)]" and ?s3.0 = ?k3 and ?s4.0 = ?k3]]]]
      pk h pop entry pk3
    by (simp add: token_def)
  from e get 1 2 show ?thesis by blast
qed

section \<open>Tokens left over after an error\<close>

lemma fold_delete_heap:
  "heap (fold delete_Token ps s) p = (if p \<in> set ps then None else heap s p)"
  by (induction ps arbitrary: s) (auto simp: delete_Token_def)

lemma fold_delete_limbo:
  "m_limboTokens (fold delete_Token ps s) = m_limboTokens s"
  by (induction ps arbitrary: s) (auto simp: delete_Token_def)

lemma Scanner_dtor_heap:
  "heap (Scanner_dtor s) p =
     (if p \<in> set (m_tokens s) \<or> p \<in> m_limboTokens s then None else heap s p)"
  by (simp add: Scanner_dtor_def Let_def fold_delete_heap fold_delete_limbo)

text \<open>
  When \<^verbatim>\<open>ScanToken\<close> throws and leaves the token that is being scanned in the limbo
  set, the destructor deletes that token.
\<close>

lemma token_under_construction_released:
  assumes "ScanAndEnqueue X ty s = Throw e s'" and "brk s \<in> m_limboTokens s'"
  shows "ScanToken X ty (brk s)
           ((snd (new_Token ty s))\<lparr>m_limboTokens := insert (brk s) (m_limboTokens s)\<rparr>) = Throw e s'"
    and "heap (Scanner_dtor s') (brk s) = None"
proof -
  show "ScanToken X ty (brk s)
           ((snd (new_Token ty s))\<lparr>m_limboTokens := insert (brk s) (m_limboTokens s)\<rparr>) = Throw e s'"
    using assms(1)
    by (auto simp: ScanAndEnqueue_def new_Token_def Let_def split: result.splits)
  show "heap (Scanner_dtor s') (brk s) = None"
    using assms(2) by (simp add: Scanner_dtor_heap)
qed

text \<open>
  When \<^verbatim>\<open>ParseFlow\<close> throws, \<^verbatim>\<open>Map::Parse\<close> passes the exception on and does not delete
  the start token; a start token that is neither queued nor in the limbo set is live
  after the destructor.
\<close>

lemma Map_Parse_leaks_start_token:
  assumes "GetNextToken X s = Some (Return (Some p) s1)"
      and "heap s1 p = Some tok" and "ttype tok = TT_FLOW_MAP_START"
      and "ParseFlow A m_data s1 = Some (Throw e s2)"
      and "heap s2 p = Some tok'" and "p \<notin> set (m_tokens s2)" and "p \<notin> m_limboTokens s2"
  shows "Map_Parse A X m_data s = Some (Throw e s2)"
    and "heap (Scanner_dtor s2) p = Some tok'"
proof -
  show "Map_Parse A X m_data s = Some (Throw e s2)"
    using assms(1-4) by (simp add: Map_Parse_def)
  show "heap (Scanner_dtor s2) p = Some tok'"
    using assms(5-7) by (simp add: Scanner_dtor_heap)
qed

text \<open>
  C7. On the input \<^verbatim>\<open>{@\<close> the scanner throws \<^verbatim>\<open>UnknownToken\<close> at \<^verbatim>\<open>@\<close>. Under
  \<^verbatim>\<open>Scanner::Scan\<close> no token is left once the scanner is destroyed. Under \<^verbatim>\<open>Map::Parse\<close>,
  which has taken the flow mapping start (the token at address \<open>1\<close>) with
  \<^verbatim>\<open>GetNextToken\<close> and deletes it only after \<^verbatim>\<open>ParseFlow\<close> has returned, that token is
  neither in the queue nor in the limbo set and is still live after the destructor.
\<close>

theorem start_token_leaks_on_error:
  "map_option (\<lambda>r. (is_Return r, error_of r, outstanding (Scanner_dtor (state_of r))))
     (Scan yaml (Scanner_ctor ''{@'') []) = Some (False, UnknownToken, [])
   \<and> map_option (\<lambda>r. (is_Return r, error_of r, outstanding (Scanner_dtor (state_of r)),
                      map_option ttype (heap (Scanner_dtor (state_of r)) 1)))
     (Map_Parse (parsing yaml) yaml [] (begun ''{@''))
       = Some (False, UnknownToken, [1], Some TT_FLOW_MAP_START)"
  by code_simp

section \<open>Block starts and block ends over a whole scan\<close>








































section \<open>The indentation stack in the states that the scanner reaches\<close>









end
